theory Spec2Isabelle
  imports Main "HOL-Library.AList"
begin

section \<open>Data model\<close>

text \<open>
  The presence and room tracker of \<^verbatim>\<open>src/socket/socketHandler.js\<close> and the pin route
  of \<^verbatim>\<open>src/routes/memories.js\<close>. Identifiers are strings (an ObjectId is used through
  its \<^verbatim>\<open>toString()\<close> everywhere in the handlers), dates are milliseconds as integers.
\<close>

type_synonym userId = string
type_synonym socketId = string
type_synonym capsuleId = string
type_synonym memoryId = string
type_synonym roomName = string
type_synonym time = int

text \<open>A User document as the handlers use it: \<^verbatim>\<open>_id\<close> and \<^verbatim>\<open>name\<close>.\<close>

record user_doc =
  user_id :: userId
  user_name :: string

text \<open>The Capsule schema of \<^verbatim>\<open>src/models/Capsule.js\<close>: owner and contributors with a role.\<close>

record contributor =
  contributor_user :: userId
  contributor_role :: string

record capsule =
  capsule_id :: capsuleId
  owner :: userId
  contributors :: "contributor list"

record memoryItem =
  memory_id :: memoryId
  memory_capsule :: capsuleId
  isPinned :: bool

text \<open>The value stored in \<^verbatim>\<open>activeUsers\<close> for a user id.\<close>

record userData =
  socketId :: socketId
  user :: user_doc
  joinedAt :: time

text \<open>A socket after the authentication middleware: \<^verbatim>\<open>socket.id\<close>, \<^verbatim>\<open>socket.userId\<close>,
  \<^verbatim>\<open>socket.user\<close>.\<close>

record socket =
  sid :: socketId
  userId :: userId
  socket_user :: user_doc

text \<open>The events the server emits, one constructor per event name, with its payload.\<close>

datatype event =
    user_online userId user_doc
  | user_offline userId user_doc
  | user_joined_capsule userId user_doc capsuleId
  | user_left_capsule userId user_doc capsuleId
  | user_typing userId user_doc capsuleId memoryId bool
  | live_reaction userId user_doc capsuleId memoryId string string time
  | user_viewing_memory userId user_doc capsuleId memoryId
  | capsule_joined capsuleId "userData list"
  | error_message string
  | memory_pinned memoryId bool user_doc

text \<open>One delivery: the receiving socket and the event.\<close>

type_synonym emission = "socketId \<times> event"

text \<open>
  The state: the two module-level maps \<^verbatim>\<open>activeUsers\<close> (a Map, in insertion order) and
  \<^verbatim>\<open>capsuleRooms\<close> (a Map of Sets, both in insertion order), and what the socket
  library keeps: the connected sockets and the sockets joined to each room.
\<close>

record registry =
  activeUsers :: "(userId \<times> userData) list"
  capsuleRooms :: "(roomName \<times> userId list) list"
  sockets :: "socketId list"
  rooms :: "roomName \<Rightarrow> socketId list"

definition init :: registry where
  "init = \<lparr>activeUsers = [], capsuleRooms = [], sockets = [], rooms = (\<lambda>r. [])\<rparr>"

text \<open>An awaited store query either rejects (the handler's \<^verbatim>\<open>catch\<close> runs) or resolves.\<close>

datatype 'a query = Rejected | Resolved 'a

text \<open>
  The persistent store at the time of a handler call: the documents of the collections,
  whether the queries of this call reject (store unreachable), whether a save rejects,
  and how a string is cast to an ObjectId: \<open>castObjectId\<close> gives the identifier in the
  form the documents carry it (\<^verbatim>\<open>_id.toString()\<close>), or \<open>None\<close> where the string cannot be
  cast. The cast belongs to the store's driver and is a parameter here.
\<close>

record db =
  User_docs :: "user_doc list"
  Capsule_docs :: "capsule list"
  MemoryItem_docs :: "memoryItem list"
  rejects :: bool
  save_rejects :: bool
  castObjectId :: "string \<Rightarrow> string option"

text \<open>
  \<^verbatim>\<open>Model.findById(id)\<close> with a string from the client: the string is cast first, and a
  string that cannot be cast makes the query reject. The document found carries its own
  \<^verbatim>\<open>_id\<close>, which need not be the string that was sent.
\<close>

definition User_findById :: "db \<Rightarrow> string \<Rightarrow> user_doc option query" where
  "User_findById d i =
     (if rejects d then Rejected
      else case castObjectId d i of
             None \<Rightarrow> Rejected
           | Some k \<Rightarrow> Resolved (find (\<lambda>u. user_id u = k) (User_docs d)))"

text \<open>\<^verbatim>\<open>Capsule.findById(memory.capsule)\<close>: the argument is an ObjectId already.\<close>

definition Capsule_findById_ObjectId :: "db \<Rightarrow> capsuleId \<Rightarrow> capsule option query" where
  "Capsule_findById_ObjectId d k =
     (if rejects d then Rejected else Resolved (find (\<lambda>c. capsule_id c = k) (Capsule_docs d)))"

definition Capsule_findById :: "db \<Rightarrow> string \<Rightarrow> capsule option query" where
  "Capsule_findById d i =
     (if rejects d then Rejected
      else case castObjectId d i of
             None \<Rightarrow> Rejected
           | Some k \<Rightarrow> Capsule_findById_ObjectId d k)"

definition MemoryItem_findById :: "db \<Rightarrow> string \<Rightarrow> memoryItem option query" where
  "MemoryItem_findById d i =
     (if rejects d then Rejected
      else case castObjectId d i of
             None \<Rightarrow> Rejected
           | Some k \<Rightarrow> Resolved (find (\<lambda>m. memory_id m = k) (MemoryItem_docs d)))"

text \<open>
  \<^verbatim>\<open>Capsule.find({$or: [{owner: u}, {"contributors.user": u}]})\<close>, called with
  \<^verbatim>\<open>socket.userId\<close>, which is the string of an ObjectId.
\<close>

definition Capsule_find_owner_or_contributor :: "db \<Rightarrow> userId \<Rightarrow> capsule list query" where
  "Capsule_find_owner_or_contributor d u =
     (if rejects d then Rejected
      else Resolved (filter (\<lambda>c. owner c = u \<or> u \<in> set (map contributor_user (contributors c)))
                       (Capsule_docs d)))"

section \<open>JavaScript Set and Map, as insertion-ordered lists\<close>

definition Set_add :: "'a \<Rightarrow> 'a list \<Rightarrow> 'a list" where
  "Set_add x xs = (if x \<in> set xs then xs else xs @ [x])"

definition Set_delete :: "'a \<Rightarrow> 'a list \<Rightarrow> 'a list" where
  "Set_delete x xs = removeAll x xs"

definition Map_has :: "'k \<Rightarrow> ('k \<times> 'v) list \<Rightarrow> bool" where
  "Map_has k m = (map_of m k \<noteq> None)"

definition Map_set :: "'k \<Rightarrow> 'v \<Rightarrow> ('k \<times> 'v) list \<Rightarrow> ('k \<times> 'v) list" where
  "Map_set k v m = AList.update k v m"

definition Map_delete :: "'k \<Rightarrow> ('k \<times> 'v) list \<Rightarrow> ('k \<times> 'v) list" where
  "Map_delete k m = AList.delete k m"

text \<open>\<^verbatim>\<open>s.replace(pat, "")\<close> with a string pattern: the first occurrence is removed.\<close>

fun replace_first :: "string \<Rightarrow> string \<Rightarrow> string" where
  "replace_first pat [] = []"
| "replace_first pat (c # cs) =
     (if take (length pat) (c # cs) = pat then drop (length pat) (c # cs)
      else c # replace_first pat cs)"

definition roomName_of :: "capsuleId \<Rightarrow> roomName" where
  "roomName_of capsuleId = ''capsule_'' @ capsuleId"

section \<open>The socket library's rooms and emitters\<close>

text \<open>
  \<^verbatim>\<open>socket.join\<close> and \<^verbatim>\<open>socket.leave\<close> add and remove the socket in the room's set;
  \<^verbatim>\<open>socket.emit\<close> reaches the socket itself, \<^verbatim>\<open>socket.to(room).emit\<close> every socket of
  the room but the sender, \<^verbatim>\<open>socket.broadcast.emit\<close> every connected socket but the
  sender, \<^verbatim>\<open>io.to(room).emit\<close> every socket of the room, each once.
\<close>

definition socket_join :: "socket \<Rightarrow> roomName \<Rightarrow> registry \<Rightarrow> registry" where
  "socket_join s r st = st\<lparr>rooms := (rooms st)(r := Set_add (sid s) (rooms st r))\<rparr>"

definition socket_leave :: "socket \<Rightarrow> roomName \<Rightarrow> registry \<Rightarrow> registry" where
  "socket_leave s r st = st\<lparr>rooms := (rooms st)(r := Set_delete (sid s) (rooms st r))\<rparr>"

definition socket_emit :: "socket \<Rightarrow> event \<Rightarrow> emission list" where
  "socket_emit s e = [(sid s, e)]"

definition socket_to_emit :: "socket \<Rightarrow> roomName \<Rightarrow> registry \<Rightarrow> event \<Rightarrow> emission list" where
  "socket_to_emit s r st e = map (\<lambda>t. (t, e)) (filter (\<lambda>t. t \<noteq> sid s) (rooms st r))"

definition socket_broadcast_emit :: "socket \<Rightarrow> registry \<Rightarrow> event \<Rightarrow> emission list" where
  "socket_broadcast_emit s st e = map (\<lambda>t. (t, e)) (filter (\<lambda>t. t \<noteq> sid s) (sockets st))"

definition io_to_emit :: "roomName \<Rightarrow> registry \<Rightarrow> event \<Rightarrow> emission list" where
  "io_to_emit r st e = map (\<lambda>t. (t, e)) (rooms st r)"

section \<open>The handlers of socketHandler.js\<close>

subsection \<open>Authentication middleware (lines 11-32)\<close>

datatype auth_error = Authentication_error | User_not_found

text \<open>
  \<open>jwt_verify\<close> stands for \<^verbatim>\<open>jwt.verify(token, process.env.JWT_SECRET)\<close>: the decoded
  \<^verbatim>\<open>userId\<close>, or \<open>None\<close> where it throws. A missing token and the empty string are
  both falsy.
\<close>

definition authenticate ::
  "(string \<Rightarrow> userId option) \<Rightarrow> db \<Rightarrow> string option \<Rightarrow> auth_error + user_doc" where
  "authenticate jwt_verify d token =
     (case token of
        None \<Rightarrow> Inl Authentication_error
      | Some t \<Rightarrow>
          if t = [] then Inl Authentication_error
          else (case jwt_verify t of
                  None \<Rightarrow> Inl Authentication_error
                | Some decoded_userId \<Rightarrow>
                    (case User_findById d decoded_userId of
                       Rejected \<Rightarrow> Inl Authentication_error
                     | Resolved None \<Rightarrow> Inl User_not_found
                     | Resolved (Some u) \<Rightarrow> Inr u)))"

subsection \<open>Connection (lines 34-48)\<close>

definition on_connection :: "socket \<Rightarrow> time \<Rightarrow> registry \<Rightarrow> registry \<times> emission list" where
  "on_connection s now st =
     (st\<lparr>activeUsers :=
           Map_set (userId s) \<lparr>socketId = sid s, user = socket_user s, joinedAt = now\<rparr>
             (activeUsers st)\<rparr>,
      socket_broadcast_emit s st (user_online (userId s) (socket_user s)))"

subsection \<open>Room tracking shared by the two join handlers (lines 61-65, 103-107)\<close>

definition track :: "roomName \<Rightarrow> userId \<Rightarrow> registry \<Rightarrow> registry" where
  "track r u st =
     (let cr = (if \<not> Map_has r (capsuleRooms st) then Map_set r [] (capsuleRooms st)
                else capsuleRooms st)
      in case map_of cr r of
           None \<Rightarrow> st\<lparr>capsuleRooms := cr\<rparr>
         | Some users \<Rightarrow> st\<lparr>capsuleRooms := Map_set r (Set_add u users) cr\<rparr>)"

subsection \<open>join_capsules (lines 51-80)\<close>

text \<open>The body of \<^verbatim>\<open>userCapsules.forEach\<close>, capsule by capsule.\<close>

fun join_each :: "socket \<Rightarrow> capsule list \<Rightarrow> registry \<Rightarrow> registry \<times> emission list" where
  "join_each s [] st = (st, [])"
| "join_each s (c # cs) st =
     (let roomName = roomName_of (capsule_id c);
          st1 = track roomName (userId s) (socket_join s roomName st);
          out = socket_to_emit s roomName st1
                  (user_joined_capsule (userId s) (socket_user s) (capsule_id c));
          r = join_each s cs st1
      in (fst r, out @ snd r))"

text \<open>The third component is the number written by \<^verbatim>\<open>console.log\<close> on the success path.\<close>

definition join_capsules :: "db \<Rightarrow> socket \<Rightarrow> registry \<Rightarrow> registry \<times> emission list \<times> nat option" where
  "join_capsules d s st =
     (case Capsule_find_owner_or_contributor d (userId s) of
        Rejected \<Rightarrow> (st, socket_emit s (error_message ''Failed to join capsules''), None)
      | Resolved userCapsules \<Rightarrow>
          (let r = join_each s userCapsules st
           in (fst r, snd r, Some (length userCapsules))))"

subsection \<open>join_capsule (lines 83-131)\<close>

definition hasAccess :: "capsule \<Rightarrow> socket \<Rightarrow> bool" where
  "hasAccess c s =
     (owner c = userId s \<or> list_ex (\<lambda>k. contributor_user k = userId s) (contributors c))"

definition activeUsersInCapsule :: "registry \<Rightarrow> roomName \<Rightarrow> userData list" where
  "activeUsersInCapsule st r =
     (case map_of (capsuleRooms st) r of
        None \<Rightarrow> []
      | Some users \<Rightarrow> List.map_filter (\<lambda>u. map_of (activeUsers st) u) users)"

definition join_capsule :: "db \<Rightarrow> socket \<Rightarrow> capsuleId \<Rightarrow> registry \<Rightarrow> registry \<times> emission list" where
  "join_capsule d s capsuleId st =
     (case Capsule_findById d capsuleId of
        Rejected \<Rightarrow> (st, socket_emit s (error_message ''Failed to join capsule''))
      | Resolved None \<Rightarrow> (st, socket_emit s (error_message ''Capsule not found''))
      | Resolved (Some c) \<Rightarrow>
          if \<not> hasAccess c s then (st, socket_emit s (error_message ''Access denied''))
          else
            (let roomName = roomName_of capsuleId;
                 st1 = track roomName (userId s) (socket_join s roomName st)
             in (st1,
                 socket_emit s (capsule_joined capsuleId (activeUsersInCapsule st1 roomName))
                 @ socket_to_emit s roomName st1
                     (user_joined_capsule (userId s) (socket_user s) capsuleId))))"

subsection \<open>leave_capsule (lines 134-154)\<close>

definition untrack :: "roomName \<Rightarrow> userId \<Rightarrow> registry \<Rightarrow> registry" where
  "untrack r u st =
     (case map_of (capsuleRooms st) r of
        None \<Rightarrow> st
      | Some users \<Rightarrow>
          (let users' = Set_delete u users
           in if length users' = 0 then st\<lparr>capsuleRooms := Map_delete r (capsuleRooms st)\<rparr>
              else st\<lparr>capsuleRooms := Map_set r users' (capsuleRooms st)\<rparr>))"

definition leave_capsule :: "socket \<Rightarrow> capsuleId \<Rightarrow> registry \<Rightarrow> registry \<times> emission list" where
  "leave_capsule s capsuleId st =
     (let roomName = roomName_of capsuleId;
          st1 = untrack roomName (userId s) (socket_leave s roomName st)
      in (st1, socket_to_emit s roomName st1
                 (user_left_capsule (userId s) (socket_user s) capsuleId)))"

subsection \<open>Typing, live reaction, viewing (lines 157-202)\<close>

definition typing_start :: "socket \<Rightarrow> capsuleId \<Rightarrow> memoryId \<Rightarrow> registry \<Rightarrow> registry \<times> emission list" where
  "typing_start s capsuleId memoryId st =
     (st, socket_to_emit s (roomName_of capsuleId) st
            (user_typing (userId s) (socket_user s) capsuleId memoryId True))"

definition typing_stop :: "socket \<Rightarrow> capsuleId \<Rightarrow> memoryId \<Rightarrow> registry \<Rightarrow> registry \<times> emission list" where
  "typing_stop s capsuleId memoryId st =
     (st, socket_to_emit s (roomName_of capsuleId) st
            (user_typing (userId s) (socket_user s) capsuleId memoryId False))"

definition on_live_reaction ::
  "socket \<Rightarrow> capsuleId \<Rightarrow> memoryId \<Rightarrow> string \<Rightarrow> string \<Rightarrow> time \<Rightarrow> registry \<Rightarrow> registry \<times> emission list" where
  "on_live_reaction s capsuleId memoryId emoji position now st =
     (st, socket_to_emit s (roomName_of capsuleId) st
            (live_reaction (userId s) (socket_user s) capsuleId memoryId emoji position now))"

definition viewing_memory :: "socket \<Rightarrow> capsuleId \<Rightarrow> memoryId \<Rightarrow> registry \<Rightarrow> registry \<times> emission list" where
  "viewing_memory s capsuleId memoryId st =
     (st, socket_to_emit s (roomName_of capsuleId) st
            (user_viewing_memory (userId s) (socket_user s) capsuleId memoryId))"

subsection \<open>disconnect (lines 205-232)\<close>

text \<open>
  The body of \<^verbatim>\<open>capsuleRooms.forEach\<close>, entry by entry: an entry that holds the user
  loses it, the room's other sockets are told, and an entry left empty is deleted.
  \<open>st\<close> is only read, for the sockets of each room.
\<close>

fun leave_all :: "socket \<Rightarrow> registry \<Rightarrow> (roomName \<times> userId list) list \<Rightarrow>
    (roomName \<times> userId list) list \<times> emission list" where
  "leave_all s st [] = ([], [])"
| "leave_all s st ((roomName, users) # rest) =
     (let r = leave_all s st rest
      in if userId s \<in> set users
         then (let users' = Set_delete (userId s) users;
                   out = socket_to_emit s roomName st
                           (user_left_capsule (userId s) (socket_user s)
                              (replace_first ''capsule_'' roomName))
               in (if length users' = 0 then fst r else (roomName, users') # fst r,
                   out @ snd r))
         else ((roomName, users) # fst r, snd r))"

definition on_disconnect :: "socket \<Rightarrow> registry \<Rightarrow> registry \<times> emission list" where
  "on_disconnect s st =
     (let st1 = st\<lparr>activeUsers := Map_delete (userId s) (activeUsers st)\<rparr>;
          r = leave_all s st1 (capsuleRooms st1)
      in (st1\<lparr>capsuleRooms := fst r\<rparr>,
          snd r @ socket_broadcast_emit s st1 (user_offline (userId s) (socket_user s))))"

subsection \<open>Periodic cleanup (lines 241-253)\<close>

definition cleanup :: "time \<Rightarrow> registry \<Rightarrow> registry" where
  "cleanup now st =
     st\<lparr>activeUsers :=
          filter (\<lambda>(userId, userData). \<not> (now - joinedAt userData > 60 * 60 * 1000))
            (activeUsers st)\<rparr>"

subsection \<open>Queries (lines 257-272)\<close>

definition getActiveUsers :: "registry \<Rightarrow> userData list" where
  "getActiveUsers st = map snd (activeUsers st)"

definition getActiveUsersInCapsule :: "registry \<Rightarrow> capsuleId \<Rightarrow> userData list" where
  "getActiveUsersInCapsule st capsuleId =
     (let roomName = roomName_of capsuleId
      in if \<not> Map_has roomName (capsuleRooms st) then []
         else activeUsersInCapsule st roomName)"

definition isUserOnline :: "registry \<Rightarrow> userId \<Rightarrow> bool" where
  "isUserOnline st u = Map_has u (activeUsers st)"

section \<open>Sequences of operations\<close>

text \<open>
  What can happen to the registry. \<open>Connect\<close> is an accepted handshake: the library
  records the socket, then the connection handler runs. \<open>Disconnect\<close> is the library
  dropping the socket from its rooms, then the disconnect handler.
\<close>

datatype op =
    Connect socket time
  | JoinCapsules db socket
  | JoinCapsule db socket capsuleId
  | LeaveCapsule socket capsuleId
  | TypingStart socket capsuleId memoryId
  | TypingStop socket capsuleId memoryId
  | LiveReaction socket capsuleId memoryId string string time
  | ViewingMemory socket capsuleId memoryId
  | Disconnect socket
  | Sweep time

fun step :: "op \<Rightarrow> registry \<Rightarrow> registry \<times> emission list" where
  "step (Connect s now) st = on_connection s now (st\<lparr>sockets := Set_add (sid s) (sockets st)\<rparr>)"
| "step (JoinCapsules d s) st = (let r = join_capsules d s st in (fst r, fst (snd r)))"
| "step (JoinCapsule d s c) st = join_capsule d s c st"
| "step (LeaveCapsule s c) st = leave_capsule s c st"
| "step (TypingStart s c m) st = typing_start s c m st"
| "step (TypingStop s c m) st = typing_stop s c m st"
| "step (LiveReaction s c m e p now) st = on_live_reaction s c m e p now st"
| "step (ViewingMemory s c m) st = viewing_memory s c m st"
| "step (Disconnect s) st =
     on_disconnect s
       (st\<lparr>sockets := Set_delete (sid s) (sockets st),
           rooms := (\<lambda>r. Set_delete (sid s) (rooms st r))\<rparr>)"
| "step (Sweep now) st = (cleanup now st, [])"

fun run :: "op list \<Rightarrow> registry \<Rightarrow> registry" where
  "run [] st = st"
| "run (x # xs) st = run xs (fst (step x st))"

text \<open>
  The handshake of a new socket \<open>i\<close>: the middleware sets \<^verbatim>\<open>socket.userId\<close> and
  \<^verbatim>\<open>socket.user\<close> from the user found; a rejected one never reaches the connection
  handler.
\<close>

definition handshake ::
  "(string \<Rightarrow> userId option) \<Rightarrow> db \<Rightarrow> string option \<Rightarrow> socketId \<Rightarrow> time \<Rightarrow> registry \<Rightarrow>
     auth_error option \<times> registry \<times> emission list" where
  "handshake jwt_verify d token i now st =
     (case authenticate jwt_verify d token of
        Inl e \<Rightarrow> (Some e, st, [])
      | Inr u \<Rightarrow>
          (None, step (Connect \<lparr>sid = i, userId = user_id u, socket_user = u\<rparr> now) st))"

section \<open>The pin route of routes/memories.js (lines 628-675)\<close>

text \<open>\<^verbatim>\<open>await memory.save()\<close>: the document replaces the stored one, or the save rejects.\<close>

definition MemoryItem_save :: "memoryItem \<Rightarrow> db \<Rightarrow> db query" where
  "MemoryItem_save m d =
     (if save_rejects d then Rejected
      else Resolved (d\<lparr>MemoryItem_docs :=
                         map (\<lambda>x. if memory_id x = memory_id m then m else x)
                           (MemoryItem_docs d)\<rparr>))"

text \<open>
  The handler after \<^verbatim>\<open>authenticateToken\<close> (which sets \<^verbatim>\<open>req.user\<close>) and
  \<^verbatim>\<open>validateObjectId\<close>. The result is the HTTP status, the store and the emissions;
  \<^verbatim>\<open>req.io\<close> is the server (\<^verbatim>\<open>src/server.js\<close>, line 77), so the room is addressed
  with \<^verbatim>\<open>io.to\<close>. A capsule that is not found makes \<^verbatim>\<open>capsule.owner\<close> throw, and the
  save can reject: the \<^verbatim>\<open>catch\<close> answers 500 and nothing is emitted. The event carries
  \<^verbatim>\<open>memory._id\<close>, the identifier of the document found.
\<close>

definition pin_memory :: "db \<Rightarrow> user_doc \<Rightarrow> string \<Rightarrow> registry \<Rightarrow> nat \<times> db \<times> emission list" where
  "pin_memory d req_user i st =
     (case MemoryItem_findById d i of
        Rejected \<Rightarrow> (500, d, [])
      | Resolved None \<Rightarrow> (404, d, [])
      | Resolved (Some memory) \<Rightarrow>
          (case Capsule_findById_ObjectId d (memory_capsule memory) of
             Rejected \<Rightarrow> (500, d, [])
           | Resolved None \<Rightarrow> (500, d, [])
           | Resolved (Some c) \<Rightarrow>
               (let isOwner = (owner c = user_id req_user);
                    isAdmin = list_ex (\<lambda>k. contributor_user k = user_id req_user
                                           \<and> contributor_role k = ''admin'') (contributors c)
                in if \<not> isOwner \<and> \<not> isAdmin then (403, d, [])
                   else
                     (let memory' = memory\<lparr>isPinned := \<not> isPinned memory\<rparr>
                      in case MemoryItem_save memory' d of
                           Rejected \<Rightarrow> (500, d, [])
                         | Resolved d' \<Rightarrow>
                             (200, d',
                              io_to_emit (roomName_of (memory_capsule memory)) st
                                (memory_pinned (memory_id memory) (isPinned memory')
                                   req_user))))))"

section \<open>Auxiliary notions\<close>

text \<open>The users tracked for a room; a room without an entry has none.\<close>

definition members :: "registry \<Rightarrow> roomName \<Rightarrow> userId list" where
  "members st r = (case map_of (capsuleRooms st) r of None \<Rightarrow> [] | Some users \<Rightarrow> users)"

text \<open>
  The invariant of the registry: a tracked room is never empty and lists no user twice,
  and no socket is twice in a room of the socket library.
\<close>

definition rooms_ok :: "registry \<Rightarrow> bool" where
  "rooms_ok st =
     ((\<forall>p \<in> set (capsuleRooms st). snd p \<noteq> [] \<and> distinct (snd p))
      \<and> (\<forall>r. distinct (rooms st r)))"

text \<open>The events a socket receives out of a list of emissions, in order.\<close>

definition received :: "socketId \<Rightarrow> emission list \<Rightarrow> event list" where
  "received t out = map snd (filter (\<lambda>e. fst e = t) out)"

text \<open>
  Registering and unregistering, for the claim on sequences of the two: the operations
  that mention a user, and the most recent of them in a sequence.
\<close>

fun is_register :: "op \<Rightarrow> bool" where
  "is_register (Connect s now) = True"
| "is_register x = False"

fun is_unregister :: "op \<Rightarrow> bool" where
  "is_unregister (Disconnect s) = True"
| "is_unregister x = False"

fun mentions :: "userId \<Rightarrow> op \<Rightarrow> bool" where
  "mentions u (Connect s now) = (userId s = u)"
| "mentions u (Disconnect s) = (userId s = u)"
| "mentions u x = False"

definition most_recent :: "userId \<Rightarrow> op list \<Rightarrow> op option" where
  "most_recent u xs = (case rev (filter (mentions u) xs) of [] \<Rightarrow> None | x # _ \<Rightarrow> Some x)"

section \<open>A concrete scenario\<close>

text \<open>
  Users A, B and C, each with one socket; capsule C101 is owned by A and lists B as
  contributor; memory M1 belongs to it and is not pinned. The identifiers are ObjectIds
  in hexadecimal.
\<close>

definition userA :: user_doc where
  "userA = \<lparr>user_id = ''64a000000000000000000001'', user_name = ''A''\<rparr>"

definition userB :: user_doc where
  "userB = \<lparr>user_id = ''64a000000000000000000002'', user_name = ''B''\<rparr>"

definition userC :: user_doc where
  "userC = \<lparr>user_id = ''64a000000000000000000003'', user_name = ''C''\<rparr>"

definition socketA :: socket where
  "socketA = \<lparr>sid = ''sA'', userId = ''64a000000000000000000001'', socket_user = userA\<rparr>"

definition socketB :: socket where
  "socketB = \<lparr>sid = ''sB'', userId = ''64a000000000000000000002'', socket_user = userB\<rparr>"

definition socketC :: socket where
  "socketC = \<lparr>sid = ''sC'', userId = ''64a000000000000000000003'', socket_user = userC\<rparr>"

definition C101 :: capsule where
  "C101 = \<lparr>capsule_id = ''64c000000000000000000101'', owner = ''64a000000000000000000001'',
            contributors = [\<lparr>contributor_user = ''64a000000000000000000002'', contributor_role = ''contributor''\<rparr>]\<rparr>"

definition M1 :: memoryItem where
  "M1 = \<lparr>memory_id = ''64d000000000000000000001'', memory_capsule = ''64c000000000000000000101'', isPinned = False\<rparr>"

text \<open>
  The cast of the scenario: a string of 24 hexadecimal digits, in lower case.
\<close>

definition hex_digit :: "char \<Rightarrow> bool" where
  "hex_digit c = (c \<in> set ''0123456789abcdefABCDEF'')"

definition lower_hex :: "char \<Rightarrow> char" where
  "lower_hex c =
     (if c = CHR ''A'' then CHR ''a'' else if c = CHR ''B'' then CHR ''b''
      else if c = CHR ''C'' then CHR ''c'' else if c = CHR ''D'' then CHR ''d''
      else if c = CHR ''E'' then CHR ''e'' else if c = CHR ''F'' then CHR ''f'' else c)"

definition hex24 :: "string \<Rightarrow> string option" where
  "hex24 s = (if length s = 24 \<and> list_all hex_digit s then Some (map lower_hex s) else None)"

definition store :: db where
  "store = \<lparr>User_docs = [userA, userB, userC], Capsule_docs = [C101],
             MemoryItem_docs = [M1], rejects = False, save_rejects = False,
             castObjectId = hex24\<rparr>"

text \<open>The same store when a save rejects.\<close>

definition store_save_fails :: db where
  "store_save_fails = store\<lparr>save_rejects := True\<rparr>"

text \<open>B alone has joined the room of C101; A and B both have.\<close>

definition B_joined :: registry where
  "B_joined = run [Connect socketB 0, JoinCapsule store socketB ''64c000000000000000000101''] init"

definition both_joined :: registry where
  "both_joined = run [Connect socketA 0, Connect socketB 1, JoinCapsule store socketA ''64c000000000000000000101'',
                      JoinCapsule store socketB ''64c000000000000000000101''] init"

text \<open>A token verifier for the scenario: only the token of A decodes.\<close>

definition verify_example :: "string \<Rightarrow> userId option" where
  "verify_example t = (if t = ''tokenA'' then Some ''64a000000000000000000001'' else None)"

section \<open>Lemmas on sets, maps and the invariant\<close>

lemma set_Set_add: "set (Set_add x xs) = insert x (set xs)"
  by (auto simp: Set_add_def)

lemma distinct_Set_add: "distinct xs \<Longrightarrow> distinct (Set_add x xs)"
  by (simp add: Set_add_def)

lemma Set_add_idem: "Set_add x (Set_add x xs) = Set_add x xs"
  by (simp add: Set_add_def)

lemma Set_add_not_Nil: "Set_add x xs \<noteq> []"
  by (auto simp: Set_add_def)

lemma set_update_subset: "set (AList.update k v al) \<subseteq> insert (k, v) (set al)"
  by (induction al) auto

lemma set_delete_subset: "set (AList.delete k al) \<subseteq> set al"
  by (induction al) auto

lemma track_eq:
  "track r u st = st\<lparr>capsuleRooms := AList.update r (Set_add u (members st r)) (capsuleRooms st)\<rparr>"
  by (auto simp: track_def members_def Map_has_def Map_set_def Let_def update_conv'
      split: option.splits)

lemma untrack_eq:
  "untrack r u st =
     (if map_of (capsuleRooms st) r = None then st
      else if removeAll u (members st r) = [] then st\<lparr>capsuleRooms := AList.delete r (capsuleRooms st)\<rparr>
      else st\<lparr>capsuleRooms := AList.update r (removeAll u (members st r)) (capsuleRooms st)\<rparr>)"
  by (auto simp: untrack_def members_def Map_set_def Map_delete_def Set_delete_def Let_def
      split: option.splits)

lemma all_update:
  "\<forall>p \<in> set al. P p \<Longrightarrow> P (k, v) \<Longrightarrow> \<forall>p \<in> set (AList.update k v al). P p"
  using set_update_subset [of k v al] by blast

lemma all_delete: "\<forall>p \<in> set al. P p \<Longrightarrow> \<forall>p \<in> set (AList.delete k al). P p"
  using set_delete_subset [of k al] by blast

lemma members_distinct: "rooms_ok st \<Longrightarrow> distinct (members st r)"
  by (auto simp: rooms_ok_def members_def split: option.splits dest!: map_of_SomeD)

lemma rooms_ok_track_join:
  assumes "rooms_ok st"
  shows "rooms_ok (track r u (socket_join s r st))"
proof -
  have m: "members (socket_join s r st) r = members st r"
    by (simp add: members_def socket_join_def)
  have d: "distinct (members st r)" using assms by (rule members_distinct)
  have "\<forall>p \<in> set (AList.update r (Set_add u (members st r)) (capsuleRooms st)).
          snd p \<noteq> [] \<and> distinct (snd p)"
    using assms d by (intro all_update) (simp_all add: rooms_ok_def distinct_Set_add Set_add_not_Nil)
  then show ?thesis
    using assms unfolding track_eq m
    by (simp add: rooms_ok_def socket_join_def distinct_Set_add)
qed

lemma rooms_ok_join_each: "rooms_ok st \<Longrightarrow> rooms_ok (fst (join_each s cs st))"
  by (induction cs arbitrary: st) (simp_all add: Let_def rooms_ok_track_join)

lemma rooms_ok_untrack_leave:
  assumes "rooms_ok st"
  shows "rooms_ok (untrack r u (socket_leave s r st))"
proof -
  have m: "members (socket_leave s r st) r = members st r"
    by (simp add: members_def socket_leave_def)
  have c: "capsuleRooms (socket_leave s r st) = capsuleRooms st"
    by (simp add: socket_leave_def)
  have d: "distinct (members st r)" using assms by (rule members_distinct)
  have old: "\<forall>p \<in> set (capsuleRooms st). snd p \<noteq> [] \<and> distinct (snd p)"
    using assms by (simp add: rooms_ok_def)
  have del: "\<forall>p \<in> set (AList.delete r (capsuleRooms st)). snd p \<noteq> [] \<and> distinct (snd p)"
    using old by (rule all_delete)
  have upd: "removeAll u (members st r) \<noteq> [] \<Longrightarrow>
      \<forall>p \<in> set (AList.update r (removeAll u (members st r)) (capsuleRooms st)).
         snd p \<noteq> [] \<and> distinct (snd p)"
    using old d by (intro all_update) (simp_all add: distinct_removeAll)
  have r: "\<forall>r'. distinct (rooms (socket_leave s r st) r')"
    using assms by (simp add: rooms_ok_def socket_leave_def Set_delete_def distinct_removeAll)
  show ?thesis
    using old del upd r unfolding untrack_eq m c
    by (simp add: rooms_ok_def socket_leave_def)
qed

lemma leave_all_rooms:
  "\<forall>p \<in> set cr. snd p \<noteq> [] \<Longrightarrow>
   fst (leave_all s st cr) =
     filter (\<lambda>p. snd p \<noteq> []) (map (\<lambda>p. (fst p, removeAll (userId s) (snd p))) cr)"
proof (induction cr)
  case Nil
  show ?case by simp
next
  case (Cons p cr)
  obtain r users where p: "p = (r, users)" by (cases p)
  have ih: "fst (leave_all s st cr) =
     filter (\<lambda>p. snd p \<noteq> []) (map (\<lambda>p. (fst p, removeAll (userId s) (snd p))) cr)"
    using Cons by simp
  have ne: "users \<noteq> []" using Cons.prems p by simp
  show ?case
  proof (cases "userId s \<in> set users")
    case True
    then show ?thesis by (simp add: p ih Let_def Set_delete_def)
  next
    case False
    then show ?thesis using ne by (simp add: p ih)
  qed
qed

lemma rooms_ok_disconnect:
  assumes "rooms_ok st"
  shows "rooms_ok (fst (step (Disconnect s) st))"
proof -
  have ne: "\<forall>p \<in> set (capsuleRooms st). snd p \<noteq> []"
    using assms by (simp add: rooms_ok_def)
  show ?thesis
    using assms
    by (auto simp: on_disconnect_def Let_def leave_all_rooms [OF ne] rooms_ok_def
        Set_delete_def distinct_removeAll)
qed

lemma rooms_ok_step: "rooms_ok st \<Longrightarrow> rooms_ok (fst (step x st))"
proof (cases x)
  case (JoinCapsules d s)
  assume "rooms_ok st"
  then show ?thesis
    by (simp add: JoinCapsules join_capsules_def Let_def rooms_ok_join_each split: query.splits)
next
  case (JoinCapsule d s c)
  assume "rooms_ok st"
  then show ?thesis
    by (simp add: JoinCapsule join_capsule_def Let_def rooms_ok_track_join
        split: query.splits option.splits)
next
  case (LeaveCapsule s c)
  assume "rooms_ok st"
  then show ?thesis
    by (simp add: LeaveCapsule leave_capsule_def Let_def rooms_ok_untrack_leave)
next
  case (Disconnect s)
  assume "rooms_ok st"
  then show ?thesis unfolding Disconnect by (rule rooms_ok_disconnect)
qed (simp_all add: rooms_ok_def on_connection_def typing_start_def typing_stop_def
    on_live_reaction_def viewing_memory_def cleanup_def)

lemma rooms_ok_run: "rooms_ok st \<Longrightarrow> rooms_ok (run xs st)"
  by (induction xs arbitrary: st) (simp_all add: rooms_ok_step)

lemma rooms_ok_init: "rooms_ok init"
  by (simp add: rooms_ok_def init_def)

lemmas scenario_defs = userA_def userB_def userC_def socketA_def socketB_def socketC_def
  C101_def M1_def

lemma hex24_scenario:
  "hex24 ''64c000000000000000000101'' = Some ''64c000000000000000000101''"
  "hex24 ''64c000000000000000000999'' = Some ''64c000000000000000000999''"
  "hex24 ''64d000000000000000000001'' = Some ''64d000000000000000000001''"
  "hex24 ''64D000000000000000000001'' = Some ''64d000000000000000000001''"
  by (simp_all add: hex24_def hex_digit_def lower_hex_def)

lemma store_lookups:
  "Capsule_findById store ''64c000000000000000000101'' = Resolved (Some C101)"
  "Capsule_findById store ''64c000000000000000000999'' = Resolved None"
  "Capsule_findById_ObjectId store ''64c000000000000000000101'' = Resolved (Some C101)"
  "MemoryItem_findById store ''64d000000000000000000001'' = Resolved (Some M1)"
  "MemoryItem_findById store ''64D000000000000000000001'' = Resolved (Some M1)"
  "MemoryItem_findById store_save_fails ''64d000000000000000000001'' = Resolved (Some M1)"
  "Capsule_findById_ObjectId store_save_fails ''64c000000000000000000101'' = Resolved (Some C101)"
  "Capsule_find_owner_or_contributor store ''64a000000000000000000001'' = Resolved [C101]"
  by (simp_all add: Capsule_findById_def Capsule_findById_ObjectId_def MemoryItem_findById_def
      Capsule_find_owner_or_contributor_def store_def store_save_fails_def hex24_scenario
      scenario_defs)

lemma members_track_join:
  "members (track r u (socket_join s r st)) r = Set_add u (members st r)"
  by (simp add: track_eq members_def socket_join_def update_conv')

lemma rooms_track_join:
  "rooms (track r u (socket_join s r st)) r = Set_add (sid s) (rooms st r)"
  by (simp add: track_eq socket_join_def)

lemma hasAccess_iff:
  "hasAccess c s \<longleftrightarrow> owner c = userId s \<or> userId s \<in> contributor_user ` set (contributors c)"
  unfolding hasAccess_def list_ex_iff by force

lemma count_list_distinct: "distinct xs \<Longrightarrow> count_list xs x = (if x \<in> set xs then 1 else 0)"
  by (induction xs) auto

lemmas handler_defs = on_connection_def join_capsules_def join_capsule_def leave_capsule_def
  typing_start_def typing_stop_def on_live_reaction_def viewing_memory_def on_disconnect_def
  cleanup_def socket_join_def socket_leave_def socket_emit_def socket_to_emit_def
  socket_broadcast_emit_def io_to_emit_def track_def untrack_def hasAccess_def
  store_lookups Set_add_def Set_delete_def Map_has_def Map_set_def Map_delete_def
  roomName_of_def init_def members_def received_def activeUsersInCapsule_def Let_def

section \<open>The claims\<close>

text \<open>
  Claim C1. For every user and capsule id, \<^verbatim>\<open>join_capsule\<close> answers the error
  ``Capsule not found'' (NotFound) when the id resolves to no capsule of the store, and
  ``Access denied'' (AccessDenied) when the user is neither the owner nor a listed
  contributor; in both cases the registry is unchanged, so no membership is added to any
  room. When the user is the owner or a contributor, the user is a member of the room of
  the capsule afterwards, and the socket is in the library's room.
\<close>

theorem join_capsule_authorization:
  "(Capsule_findById d c = Resolved None \<longrightarrow>
      join_capsule d s c st = (st, [(sid s, error_message ''Capsule not found'')]))
   \<and> (\<forall>cap. Capsule_findById d c = Resolved (Some cap) \<and> owner cap \<noteq> userId s
         \<and> userId s \<notin> contributor_user ` set (contributors cap) \<longrightarrow>
      join_capsule d s c st = (st, [(sid s, error_message ''Access denied'')]))
   \<and> (\<forall>cap. Capsule_findById d c = Resolved (Some cap)
         \<and> (owner cap = userId s \<or> userId s \<in> contributor_user ` set (contributors cap)) \<longrightarrow>
      userId s \<in> set (members (fst (join_capsule d s c st)) (roomName_of c))
      \<and> sid s \<in> set (rooms (fst (join_capsule d s c st)) (roomName_of c)))"
  by (simp add: join_capsule_def socket_emit_def hasAccess_iff Let_def members_track_join
      rooms_track_join set_Set_add)

theorem join_capsule_authorization_witness:
  "join_capsule store socketA ''64c000000000000000000999'' init = (init, [(''sA'', error_message ''Capsule not found'')])
   \<and> join_capsule store socketC ''64c000000000000000000101'' init = (init, [(''sC'', error_message ''Access denied'')])
   \<and> ''64a000000000000000000002'' \<in> set (members (fst (join_capsule store socketB ''64c000000000000000000101'' init)) ''capsule_64c000000000000000000101'')
   \<and> ''sB'' \<in> set (rooms (fst (join_capsule store socketB ''64c000000000000000000101'' init)) ''capsule_64c000000000000000000101'')"
proof -
  have a: "Capsule_findById store ''64c000000000000000000999'' = Resolved None"
    by (rule store_lookups)
  have b: "Capsule_findById store ''64c000000000000000000101'' = Resolved (Some C101)"
    by (rule store_lookups)
  have c: "owner C101 \<noteq> userId socketC
      \<and> userId socketC \<notin> contributor_user ` set (contributors C101)"
    by (simp add: scenario_defs)
  have d: "owner C101 = userId socketB
      \<or> userId socketB \<in> contributor_user ` set (contributors C101)"
    by (simp add: scenario_defs)
  have t1: "join_capsule store socketA ''64c000000000000000000999'' init
      = (init, [(sid socketA, error_message ''Capsule not found'')])"
    using join_capsule_authorization [of store "''64c000000000000000000999''" socketA init] a by blast
  have t2: "join_capsule store socketC ''64c000000000000000000101'' init
      = (init, [(sid socketC, error_message ''Access denied'')])"
    using join_capsule_authorization [of store "''64c000000000000000000101''" socketC init] b c by blast
  have t3: "userId socketB \<in> set (members (fst (join_capsule store socketB ''64c000000000000000000101'' init))
                (roomName_of ''64c000000000000000000101''))
      \<and> sid socketB \<in> set (rooms (fst (join_capsule store socketB ''64c000000000000000000101'' init))
                (roomName_of ''64c000000000000000000101''))"
    using join_capsule_authorization [of store "''64c000000000000000000101''" socketB init] b d by blast
  have e: "sid socketA = ''sA''" "sid socketC = ''sC''" "sid socketB = ''sB''"
    "userId socketB = ''64a000000000000000000002''" "roomName_of ''64c000000000000000000101'' = ''capsule_64c000000000000000000101''"
    by (simp_all add: scenario_defs roomName_of_def)
  show ?thesis using t1 t2 t3 unfolding e by simp
qed

text \<open>
  Claim C8. For a user authorized for a capsule, in any state reached from the empty
  registry, joining the room twice in a row leaves the same registry as joining once, and
  the user is listed exactly once in the room.
\<close>

theorem join_capsule_idempotent:
  assumes "Capsule_findById d c = Resolved (Some cap)"
    and "owner cap = userId s \<or> userId s \<in> contributor_user ` set (contributors cap)"
  shows "fst (join_capsule d s c (fst (join_capsule d s c (run ops init))))
           = fst (join_capsule d s c (run ops init))
         \<and> count_list (members (fst (join_capsule d s c (fst (join_capsule d s c (run ops init)))))
              (roomName_of c)) (userId s) = 1"
proof -
  let ?st = "run ops init"
  let ?r = "roomName_of c"
  have j: "\<And>st. fst (join_capsule d s c st) = track ?r (userId s) (socket_join s ?r st)"
    using assms by (simp add: join_capsule_def hasAccess_iff Let_def)
  have ok: "rooms_ok (fst (join_capsule d s c ?st))"
    unfolding j by (intro rooms_ok_track_join rooms_ok_run rooms_ok_init)
  have eq: "track ?r (userId s) (socket_join s ?r (track ?r (userId s) (socket_join s ?r ?st)))
      = track ?r (userId s) (socket_join s ?r ?st)"
    by (simp add: track_eq members_def socket_join_def update_conv' Set_add_idem)
  have "distinct (members (fst (join_capsule d s c ?st)) ?r)"
    using ok by (rule members_distinct)
  moreover have "userId s \<in> set (members (fst (join_capsule d s c ?st)) ?r)"
    unfolding j by (simp add: members_track_join set_Set_add)
  ultimately have "count_list (members (fst (join_capsule d s c ?st)) ?r) (userId s) = 1"
    by (simp add: count_list_distinct)
  then show ?thesis unfolding j eq by simp
qed

theorem join_capsule_idempotent_witness:
  "Capsule_findById store ''64c000000000000000000101'' = Resolved (Some C101)
   \<and> (owner C101 = userId socketB \<or> userId socketB \<in> contributor_user ` set (contributors C101))
   \<and> fst (join_capsule store socketB ''64c000000000000000000101''
            (fst (join_capsule store socketB ''64c000000000000000000101'' (run [Connect socketB 0] init))))
       = fst (join_capsule store socketB ''64c000000000000000000101'' (run [Connect socketB 0] init))
   \<and> count_list (members (fst (join_capsule store socketB ''64c000000000000000000101''
            (fst (join_capsule store socketB ''64c000000000000000000101'' (run [Connect socketB 0] init)))))
              (roomName_of ''64c000000000000000000101'')) (userId socketB) = 1"
proof -
  have a: "Capsule_findById store ''64c000000000000000000101'' = Resolved (Some C101)"
    by (rule store_lookups)
  have b: "owner C101 = userId socketB
      \<or> userId socketB \<in> contributor_user ` set (contributors C101)"
    by (simp add: scenario_defs)
  show ?thesis
    using a b join_capsule_idempotent [OF a b, of "[Connect socketB 0]"] by blast
qed

text \<open>Lemmas for the broadcasts.\<close>

lemma rooms_untrack: "rooms (untrack r u st) = rooms st"
  by (simp add: untrack_eq)

lemma filter_removeAll_same: "filter (\<lambda>t. t \<noteq> x) (removeAll x xs) = filter (\<lambda>t. t \<noteq> x) xs"
  by (induction xs) auto

text \<open>
  Claim C10. When the user of the socket is not a member of the room of capsule \<open>c\<close>,
  \<^verbatim>\<open>leave_capsule\<close> still emits \<^verbatim>\<open>user_left_capsule\<close>, once to every socket of the
  room other than the sender: the broadcast does not depend on the membership.
\<close>

theorem leave_capsule_broadcast_unconditional:
  "userId s \<notin> set (members st (roomName_of c)) \<Longrightarrow>
   snd (leave_capsule s c st) =
     map (\<lambda>t. (t, user_left_capsule (userId s) (socket_user s) c))
       (filter (\<lambda>t. t \<noteq> sid s) (rooms st (roomName_of c)))"
  by (simp add: leave_capsule_def Let_def socket_to_emit_def rooms_untrack socket_leave_def
      Set_delete_def filter_removeAll_same)

lemma scenario_B_joined:
  "members B_joined ''capsule_64c000000000000000000101'' = [''64a000000000000000000002'']"
  "rooms B_joined ''capsule_64c000000000000000000101'' = [''sB'']"
  "capsuleRooms B_joined = [(''capsule_64c000000000000000000101'', [''64a000000000000000000002''])]"
  by (simp_all add: B_joined_def handler_defs scenario_defs)

theorem leave_capsule_broadcast_unconditional_witness:
  "userId socketA \<notin> set (members B_joined (roomName_of ''64c000000000000000000101''))
   \<and> snd (leave_capsule socketA ''64c000000000000000000101'' B_joined) = [(''sB'', user_left_capsule ''64a000000000000000000001'' userA ''64c000000000000000000101'')]"
proof -
  have a: "userId socketA \<notin> set (members B_joined (roomName_of ''64c000000000000000000101''))"
    by (simp add: roomName_of_def scenario_B_joined socketA_def)
  show ?thesis
    using a leave_capsule_broadcast_unconditional [OF a]
    by (simp add: roomName_of_def scenario_B_joined socketA_def)
qed

lemma received_map:
  "distinct xs \<Longrightarrow> received t (map (\<lambda>x. (x, e)) xs) = (if t \<in> set xs then [e] else [])"
  by (induction xs) (auto simp: received_def)

lemma received_to_emit:
  "distinct (rooms st r) \<Longrightarrow>
   received t (socket_to_emit s r st e) = (if t \<in> set (rooms st r) \<and> t \<noteq> sid s then [e] else [])"
  by (simp add: socket_to_emit_def received_map)

lemma rooms_distinct: "rooms_ok st \<Longrightarrow> distinct (rooms st r)"
  by (simp add: rooms_ok_def)

text \<open>
  Claim C7. In any state reached from the empty registry, for every room, event and
  sending socket, the room broadcast that excludes the sender (\<^verbatim>\<open>socket.to(room).emit\<close>)
  delivers the event exactly once to every socket in the room except the sender's
  socket, to no other socket, and not to the sender even when it is in the room. The
  handlers \<^verbatim>\<open>typing_start\<close>, \<^verbatim>\<open>typing_stop\<close>, \<^verbatim>\<open>live_reaction\<close> and \<^verbatim>\<open>viewing_memory\<close>
  each deliver their event in this way and leave the registry unchanged.
\<close>

theorem room_broadcast_excludes_sender:
  "received t (socket_to_emit s r (run ops init) e)
     = (if t \<in> set (rooms (run ops init) r) \<and> t \<noteq> sid s then [e] else [])
   \<and> received t (snd (typing_start s c m (run ops init)))
     = (if t \<in> set (rooms (run ops init) (roomName_of c)) \<and> t \<noteq> sid s
        then [user_typing (userId s) (socket_user s) c m True] else [])
   \<and> received t (snd (typing_stop s c m (run ops init)))
     = (if t \<in> set (rooms (run ops init) (roomName_of c)) \<and> t \<noteq> sid s
        then [user_typing (userId s) (socket_user s) c m False] else [])
   \<and> received t (snd (on_live_reaction s c m emoji position now (run ops init)))
     = (if t \<in> set (rooms (run ops init) (roomName_of c)) \<and> t \<noteq> sid s
        then [live_reaction (userId s) (socket_user s) c m emoji position now] else [])
   \<and> received t (snd (viewing_memory s c m (run ops init)))
     = (if t \<in> set (rooms (run ops init) (roomName_of c)) \<and> t \<noteq> sid s
        then [user_viewing_memory (userId s) (socket_user s) c m] else [])
   \<and> fst (typing_start s c m (run ops init)) = run ops init
   \<and> fst (typing_stop s c m (run ops init)) = run ops init
   \<and> fst (on_live_reaction s c m emoji position now (run ops init)) = run ops init
   \<and> fst (viewing_memory s c m (run ops init)) = run ops init"
proof -
  have d: "\<And>r. distinct (rooms (run ops init) r)"
    by (intro rooms_distinct rooms_ok_run rooms_ok_init)
  show ?thesis
    by (simp add: typing_start_def typing_stop_def on_live_reaction_def viewing_memory_def
        received_to_emit [OF d])
qed

lemma scenario_both_joined:
  "rooms both_joined ''capsule_64c000000000000000000101'' = [''sA'', ''sB'']"
  "capsuleRooms both_joined = [(''capsule_64c000000000000000000101'', [''64a000000000000000000001'', ''64a000000000000000000002''])]"
  by (simp_all add: both_joined_def handler_defs scenario_defs)

theorem room_broadcast_excludes_sender_witness:
  "received ''sB'' (snd (typing_start socketA ''64c000000000000000000101'' ''64d000000000000000000001'' both_joined))
     = [user_typing ''64a000000000000000000001'' userA ''64c000000000000000000101'' ''64d000000000000000000001'' True]
   \<and> received ''sA'' (snd (typing_start socketA ''64c000000000000000000101'' ''64d000000000000000000001'' both_joined)) = []
   \<and> received ''sB'' (snd (typing_stop socketA ''64c000000000000000000101'' ''64d000000000000000000001'' both_joined))
     = [user_typing ''64a000000000000000000001'' userA ''64c000000000000000000101'' ''64d000000000000000000001'' False]
   \<and> received ''sB'' (snd (on_live_reaction socketA ''64c000000000000000000101''
         ''64d000000000000000000001'' ''heart'' ''10,20'' 7 both_joined))
     = [live_reaction ''64a000000000000000000001'' userA ''64c000000000000000000101''
         ''64d000000000000000000001'' ''heart'' ''10,20'' 7]
   \<and> received ''sA'' (snd (on_live_reaction socketA ''64c000000000000000000101''
         ''64d000000000000000000001'' ''heart'' ''10,20'' 7 both_joined)) = []
   \<and> received ''sB'' (snd (viewing_memory socketA ''64c000000000000000000101'' ''64d000000000000000000001'' both_joined))
     = [user_viewing_memory ''64a000000000000000000001'' userA ''64c000000000000000000101'' ''64d000000000000000000001'']
   \<and> received ''sA'' (snd (viewing_memory socketA ''64c000000000000000000101'' ''64d000000000000000000001'' both_joined)) = []
   \<and> received ''sB'' (socket_to_emit socketA ''capsule_64c000000000000000000101'' both_joined
         (error_message ''any event'')) = [error_message ''any event'']
   \<and> received ''sA'' (socket_to_emit socketA ''capsule_64c000000000000000000101'' both_joined
         (error_message ''any event'')) = []"
  using room_broadcast_excludes_sender [of "''sB''" socketA "''capsule_64c000000000000000000101''"
      "[Connect socketA 0, Connect socketB 1, JoinCapsule store socketA ''64c000000000000000000101'',
        JoinCapsule store socketB ''64c000000000000000000101'']" "error_message ''any event''"
      "''64c000000000000000000101''" "''64d000000000000000000001''" "''heart''" "''10,20''" 7,
      folded both_joined_def]
    room_broadcast_excludes_sender [of "''sA''" socketA "''capsule_64c000000000000000000101''"
      "[Connect socketA 0, Connect socketB 1, JoinCapsule store socketA ''64c000000000000000000101'',
        JoinCapsule store socketB ''64c000000000000000000101'']" "error_message ''any event''"
      "''64c000000000000000000101''" "''64d000000000000000000001''" "''heart''" "''10,20''" 7,
      folded both_joined_def]
  by (simp add: scenario_both_joined roomName_of_def socketA_def)

text \<open>
  Claim C9. A handshake whose credential is missing (absent or empty), does not verify,
  or names no user of the store is rejected: the connection handler does not run, the
  registry is unchanged (so \<^verbatim>\<open>getActiveUsers\<close> lists what it listed), and nothing
  is emitted, in particular no \<^verbatim>\<open>user_online\<close>.
\<close>

theorem rejected_handshake_no_effect:
  assumes "token = None \<or> token = Some []
     \<or> (\<exists>t. token = Some t \<and> (jwt_verify t = None
           \<or> (\<exists>u. jwt_verify t = Some u \<and> User_findById d u \<in> {Rejected, Resolved None})))"
  shows "(\<exists>e. handshake jwt_verify d token i now st = (Some e, st, []))
     \<and> getActiveUsers (fst (snd (handshake jwt_verify d token i now st))) = getActiveUsers st
     \<and> snd (snd (handshake jwt_verify d token i now st)) = []"
proof -
  have "\<exists>e. authenticate jwt_verify d token = Inl e"
    using assms by (auto simp: authenticate_def split: option.splits query.splits)
  then obtain e where "authenticate jwt_verify d token = Inl e" ..
  then have "handshake jwt_verify d token i now st = (Some e, st, [])"
    by (simp add: handshake_def)
  then show ?thesis by simp
qed

theorem rejected_handshake_no_effect_witness:
  "handshake verify_example store None ''sX'' 5 both_joined = (Some Authentication_error, both_joined, [])
   \<and> handshake verify_example store (Some ''forged'') ''sX'' 5 both_joined
       = (Some Authentication_error, both_joined, [])
   \<and> getActiveUsers (fst (snd (handshake verify_example store (Some ''forged'') ''sX'' 5 both_joined)))
       = getActiveUsers both_joined"
proof -
  have a: "(None :: string option) = None \<or> None = Some []
     \<or> (\<exists>t. None = Some t \<and> (verify_example t = None
           \<or> (\<exists>u. verify_example t = Some u \<and> User_findById store u \<in> {Rejected, Resolved None})))"
    by simp
  have b: "Some ''forged'' = None \<or> Some ''forged'' = Some []
     \<or> (\<exists>t. Some ''forged'' = Some t \<and> (verify_example t = None
           \<or> (\<exists>u. verify_example t = Some u \<and> User_findById store u \<in> {Rejected, Resolved None})))"
    by (simp add: verify_example_def)
  have c: "authenticate verify_example store None = Inl Authentication_error"
    "authenticate verify_example store (Some ''forged'') = Inl Authentication_error"
    by (simp_all add: authenticate_def verify_example_def)
  show ?thesis
    using rejected_handshake_no_effect [OF a, of "''sX''" 5 both_joined]
      rejected_handshake_no_effect [OF b, of "''sX''" 5 both_joined]
    by (simp add: handshake_def c)
qed

text \<open>Lemmas for the presence map.\<close>

lemma Map_has_set: "Map_has u (Map_set k v al) \<longleftrightarrow> u = k \<or> Map_has u al"
  by (simp add: Map_has_def Map_set_def update_conv')

lemma Map_has_delete: "Map_has u (Map_delete k al) \<longleftrightarrow> u \<noteq> k \<and> Map_has u al"
  by (simp add: Map_has_def Map_delete_def delete_conv')

lemma isUserOnline_Connect:
  "isUserOnline (fst (step (Connect s now) st)) u \<longleftrightarrow> userId s = u \<or> isUserOnline st u"
  by (auto simp: isUserOnline_def on_connection_def Map_has_set)

lemma isUserOnline_Disconnect:
  "isUserOnline (fst (step (Disconnect s) st)) u \<longleftrightarrow> userId s \<noteq> u \<and> isUserOnline st u"
  by (auto simp: isUserOnline_def on_disconnect_def Let_def Map_has_delete)

lemma most_recent_Cons:
  "most_recent u (x # xs) =
     (case most_recent u xs of
        Some y \<Rightarrow> Some y
      | None \<Rightarrow> if mentions u x then Some x else None)"
  by (simp add: most_recent_def split: list.splits)

lemma isUserOnline_run:
  "\<forall>x \<in> set xs. is_register x \<or> is_unregister x \<Longrightarrow>
   isUserOnline (run xs st) u =
     (case most_recent u xs of None \<Rightarrow> isUserOnline st u | Some x \<Rightarrow> is_register x)"
proof (induction xs arbitrary: st)
  case Nil
  show ?case by (simp add: most_recent_def)
next
  case (Cons x xs)
  have ih: "isUserOnline (run xs (fst (step x st))) u =
     (case most_recent u xs of None \<Rightarrow> isUserOnline (fst (step x st)) u | Some y \<Rightarrow> is_register y)"
    using Cons by simp
  have x: "is_register x \<or> is_unregister x" using Cons.prems by simp
  show ?case
  proof (cases "most_recent u xs")
    case (Some y)
    then show ?thesis using ih by (simp add: most_recent_Cons)
  next
    case None
    show ?thesis
    proof (cases x)
      case (Connect s now)
      show ?thesis
        using ih None unfolding Connect most_recent_Cons
        by (simp add: isUserOnline_Connect del: step.simps)
    next
      case (Disconnect s)
      show ?thesis
        using ih None unfolding Disconnect most_recent_Cons
        by (simp add: isUserOnline_Disconnect del: step.simps)
    qed (use x in simp_all)
  qed
qed

text \<open>
  Claim C6. After any finite sequence of register (connection) and unregister
  (disconnect) operations on the empty registry, \<^verbatim>\<open>isUserOnline\<close> of a user holds exactly
  when the most recent operation of the sequence that mentions the user is a register.
\<close>

theorem isUserOnline_most_recent:
  "\<forall>x \<in> set xs. is_register x \<or> is_unregister x \<Longrightarrow>
   isUserOnline (run xs init) u \<longleftrightarrow> (\<exists>x. most_recent u xs = Some x \<and> is_register x)"
  by (simp add: isUserOnline_run) (simp add: isUserOnline_def Map_has_def init_def split: option.splits)

theorem isUserOnline_most_recent_witness:
  "list_all (\<lambda>x. is_register x \<or> is_unregister x)
     [Connect socketA 0, Connect socketB 1, Disconnect socketA]
   \<and> \<not> isUserOnline (run [Connect socketA 0, Connect socketB 1, Disconnect socketA] init) ''64a000000000000000000001''
   \<and> isUserOnline (run [Connect socketA 0, Connect socketB 1, Disconnect socketA] init) ''64a000000000000000000002''
   \<and> \<not> isUserOnline (run [Connect socketA 0, Connect socketB 1, Disconnect socketA] init) ''64a000000000000000000003''"
proof -
  have a: "\<forall>x \<in> set [Connect socketA 0, Connect socketB 1, Disconnect socketA].
       is_register x \<or> is_unregister x"
    by simp
  have m: "most_recent ''64a000000000000000000001'' [Connect socketA 0, Connect socketB 1, Disconnect socketA]
        = Some (Disconnect socketA)"
    "most_recent ''64a000000000000000000002'' [Connect socketA 0, Connect socketB 1, Disconnect socketA]
        = Some (Connect socketB 1)"
    "most_recent ''64a000000000000000000003'' [Connect socketA 0, Connect socketB 1, Disconnect socketA] = None"
    by (simp_all add: most_recent_def socketA_def socketB_def)
  show ?thesis
    using isUserOnline_most_recent [OF a, of "''64a000000000000000000001''"] isUserOnline_most_recent [OF a, of "''64a000000000000000000002''"]
      isUserOnline_most_recent [OF a, of "''64a000000000000000000003''"]
    unfolding m by simp
qed

text \<open>Lemmas for leaving and disconnecting.\<close>

lemma rooms_ok_nonempty: "rooms_ok st \<Longrightarrow> \<forall>p \<in> set (capsuleRooms st). snd p \<noteq> []"
  by (simp add: rooms_ok_def)

lemma members_leave_capsule:
  "userId s \<notin> set (members (fst (leave_capsule s c st)) (roomName_of c))"
  by (simp add: leave_capsule_def Let_def untrack_eq)
     (simp add: members_def socket_leave_def update_conv' delete_conv')

lemma removeAll_only: "set xs \<subseteq> {x} \<Longrightarrow> removeAll x xs = []"
  by (induction xs) auto

lemma leave_capsule_last_member:
  assumes "set (members st (roomName_of c)) = {userId s}"
  shows "\<not> Map_has (roomName_of c) (capsuleRooms (fst (leave_capsule s c st)))"
proof -
  let ?st = "socket_leave s (roomName_of c) st"
  have m: "members ?st (roomName_of c) = members st (roomName_of c)"
    by (simp add: members_def socket_leave_def)
  have "removeAll (userId s) (members st (roomName_of c)) = []"
    using assms by (intro removeAll_only) simp
  then show ?thesis
    by (simp add: leave_capsule_def Let_def untrack_eq m Map_has_def delete_conv')
qed

lemma capsuleRooms_Disconnect:
  "rooms_ok st \<Longrightarrow>
   capsuleRooms (fst (step (Disconnect s) st)) =
     filter (\<lambda>p. snd p \<noteq> [])
       (map (\<lambda>p. (fst p, removeAll (userId s) (snd p))) (capsuleRooms st))"
  by (simp add: on_disconnect_def Let_def leave_all_rooms rooms_ok_nonempty)

text \<open>
  Claim C5. In every state reached from the empty registry by any sequence of
  operations, no tracked room has an empty member set. When the user is the only member
  of the room of \<open>c\<close>, \<^verbatim>\<open>leave_capsule\<close> removes the room: it is absent from
  \<^verbatim>\<open>capsuleRooms\<close> and \<^verbatim>\<open>getActiveUsersInCapsule\<close> answers the empty list. A disconnect
  removes the user from every room and deletes exactly the rooms left empty.
\<close>

theorem no_empty_room:
  "(\<forall>p \<in> set (capsuleRooms (run ops init)). snd p \<noteq> [])
   \<and> (set (members (run ops init) (roomName_of c)) = {userId s} \<longrightarrow>
        \<not> Map_has (roomName_of c) (capsuleRooms (fst (leave_capsule s c (run ops init))))
        \<and> getActiveUsersInCapsule (fst (leave_capsule s c (run ops init))) c = [])
   \<and> capsuleRooms (fst (step (Disconnect s) (run ops init))) =
        filter (\<lambda>p. snd p \<noteq> [])
          (map (\<lambda>p. (fst p, removeAll (userId s) (snd p))) (capsuleRooms (run ops init)))
   \<and> (\<forall>p \<in> set (capsuleRooms (fst (step (Disconnect s) (run ops init)))).
         userId s \<notin> set (snd p) \<and> snd p \<noteq> [])"
proof -
  have ok: "rooms_ok (run ops init)"
    by (intro rooms_ok_run rooms_ok_init)
  have d: "capsuleRooms (fst (step (Disconnect s) (run ops init))) =
        filter (\<lambda>p. snd p \<noteq> [])
          (map (\<lambda>p. (fst p, removeAll (userId s) (snd p))) (capsuleRooms (run ops init)))"
    using ok by (rule capsuleRooms_Disconnect)
  have e: "\<forall>p \<in> set (capsuleRooms (fst (step (Disconnect s) (run ops init)))).
         userId s \<notin> set (snd p) \<and> snd p \<noteq> []"
    unfolding d by auto
  have l: "set (members (run ops init) (roomName_of c)) = {userId s} \<longrightarrow>
        \<not> Map_has (roomName_of c) (capsuleRooms (fst (leave_capsule s c (run ops init))))
        \<and> getActiveUsersInCapsule (fst (leave_capsule s c (run ops init))) c = []"
    by (simp add: leave_capsule_last_member getActiveUsersInCapsule_def)
  show ?thesis
    by (intro conjI rooms_ok_nonempty [OF ok] l d e)
qed

theorem no_empty_room_witness:
  "set (members B_joined (roomName_of ''64c000000000000000000101'')) = {userId socketB}
   \<and> \<not> Map_has (roomName_of ''64c000000000000000000101'') (capsuleRooms (fst (leave_capsule socketB ''64c000000000000000000101'' B_joined)))
   \<and> getActiveUsersInCapsule (fst (leave_capsule socketB ''64c000000000000000000101'' B_joined)) ''64c000000000000000000101'' = []
   \<and> capsuleRooms (fst (step (Disconnect socketA) both_joined)) = [(''capsule_64c000000000000000000101'', [''64a000000000000000000002''])]
   \<and> list_all (\<lambda>p. snd p \<noteq> []) (capsuleRooms both_joined)"
proof -
  note t1 = no_empty_room [of "[Connect socketB 0, JoinCapsule store socketB ''64c000000000000000000101'']"
      "''64c000000000000000000101''" socketB, folded B_joined_def]
  note t2 = no_empty_room [of "[Connect socketA 0, Connect socketB 1,
      JoinCapsule store socketA ''64c000000000000000000101'', JoinCapsule store socketB ''64c000000000000000000101'']"
      "''64c000000000000000000101''" socketA, folded both_joined_def]
  have a: "set (members B_joined (roomName_of ''64c000000000000000000101'')) = {userId socketB}"
    by (simp add: roomName_of_def scenario_B_joined socketB_def)
  have p1: "\<not> Map_has (roomName_of ''64c000000000000000000101'') (capsuleRooms (fst (leave_capsule socketB ''64c000000000000000000101'' B_joined)))
      \<and> getActiveUsersInCapsule (fst (leave_capsule socketB ''64c000000000000000000101'' B_joined)) ''64c000000000000000000101'' = []"
    using t1 [THEN conjunct2, THEN conjunct1] a by (rule mp)
  have p2: "filter (\<lambda>p. snd p \<noteq> [])
          (map (\<lambda>p. (fst p, removeAll (userId socketA) (snd p))) (capsuleRooms both_joined))
      = [(''capsule_64c000000000000000000101'', [''64a000000000000000000002''])]"
    by (simp add: scenario_both_joined socketA_def)
  have p3: "capsuleRooms (fst (step (Disconnect socketA) both_joined)) = [(''capsule_64c000000000000000000101'', [''64a000000000000000000002''])]"
    using t2 [THEN conjunct2, THEN conjunct2, THEN conjunct1] unfolding p2 .
  show ?thesis
    by (intro conjI a p1 [THEN conjunct1] p1 [THEN conjunct2] p3
        t2 [THEN conjunct1, folded list_all_iff])
qed

text \<open>Lemmas for the bulk join.\<close>

lemma filter_Set_add_same: "filter (\<lambda>t. t \<noteq> x) (Set_add x xs) = filter (\<lambda>t. t \<noteq> x) xs"
  by (simp add: Set_add_def)

lemma others_track_join:
  "filter (\<lambda>t. t \<noteq> sid s) (rooms (track r u (socket_join s r st)) r')
     = filter (\<lambda>t. t \<noteq> sid s) (rooms st r')"
  by (simp add: track_eq socket_join_def filter_Set_add_same)

lemma join_each_emissions:
  "snd (join_each s cs st) =
     concat (map (\<lambda>c. map (\<lambda>t. (t, user_joined_capsule (userId s) (socket_user s) (capsule_id c)))
                         (filter (\<lambda>t. t \<noteq> sid s) (rooms st (roomName_of (capsule_id c))))) cs)"
proof (induction cs arbitrary: st)
  case Nil
  show ?case by simp
next
  case (Cons c cs)
  show ?case
    by (simp add: Let_def Cons.IH socket_to_emit_def others_track_join)
qed

lemma set_members_track_join:
  "set (members (track r u (socket_join s r st)) r')
     = (if r' = r then insert u (set (members st r)) else set (members st r'))"
proof (cases "r' = r")
  case True
  then show ?thesis by (simp add: members_track_join set_Set_add)
next
  case False
  then show ?thesis by (simp add: track_eq members_def socket_join_def update_conv')
qed

lemma set_rooms_track_join:
  "set (rooms (track r u (socket_join s r st)) r')
     = (if r' = r then insert (sid s) (set (rooms st r)) else set (rooms st r'))"
  by (simp add: track_eq socket_join_def set_Set_add)

lemma join_each_keeps:
  "userId s \<in> set (members st r) \<and> sid s \<in> set (rooms st r) \<Longrightarrow>
   userId s \<in> set (members (fst (join_each s cs st)) r)
   \<and> sid s \<in> set (rooms (fst (join_each s cs st)) r)"
proof (induction cs arbitrary: st)
  case Nil
  then show ?case by simp
next
  case (Cons c cs)
  let ?st1 = "track (roomName_of (capsule_id c)) (userId s)
                (socket_join s (roomName_of (capsule_id c)) st)"
  have "userId s \<in> set (members ?st1 r) \<and> sid s \<in> set (rooms ?st1 r)"
    using Cons.prems by (simp add: set_members_track_join set_rooms_track_join)
  then show ?case
    using Cons.IH [of ?st1] by (simp add: Let_def)
qed

lemma join_each_joins:
  "c \<in> set cs \<Longrightarrow>
   userId s \<in> set (members (fst (join_each s cs st)) (roomName_of (capsule_id c)))
   \<and> sid s \<in> set (rooms (fst (join_each s cs st)) (roomName_of (capsule_id c)))"
proof (induction cs arbitrary: st)
  case Nil
  then show ?case by simp
next
  case (Cons x cs)
  let ?st1 = "track (roomName_of (capsule_id x)) (userId s)
                (socket_join s (roomName_of (capsule_id x)) st)"
  show ?case
  proof (cases "c = x")
    case True
    have "userId s \<in> set (members ?st1 (roomName_of (capsule_id x)))
        \<and> sid s \<in> set (rooms ?st1 (roomName_of (capsule_id x)))"
      by (simp add: set_members_track_join set_rooms_track_join)
    then show ?thesis
      using join_each_keeps [of s ?st1 "roomName_of (capsule_id x)" cs]
      by (simp add: True Let_def)
  next
    case False
    then have "c \<in> set cs" using Cons.prems by simp
    then show ?thesis
      using Cons.IH [of ?st1] by (simp add: Let_def)
  qed
qed

text \<open>
  Claim C4, as the code has it. For every connected user, \<^verbatim>\<open>join_capsules\<close> joins the
  user to the room of every capsule of the store that lists the user as owner or
  contributor, writes the number of these capsules to the log (nothing is returned to
  the client), and for each of these rooms emits \<^verbatim>\<open>user_joined_capsule\<close> to the other
  sockets of the room.
\<close>

theorem join_capsules_joins_and_notifies:
  assumes "\<not> rejects d"
  shows "(\<forall>c \<in> set (Capsule_docs d).
           owner c = userId s \<or> userId s \<in> set (map contributor_user (contributors c)) \<longrightarrow>
           userId s \<in> set (members (fst (join_capsules d s st)) (roomName_of (capsule_id c)))
           \<and> sid s \<in> set (rooms (fst (join_capsules d s st)) (roomName_of (capsule_id c))))
     \<and> snd (snd (join_capsules d s st)) =
         Some (length (filter (\<lambda>c. owner c = userId s
                 \<or> userId s \<in> set (map contributor_user (contributors c))) (Capsule_docs d)))
     \<and> fst (snd (join_capsules d s st)) =
         concat (map (\<lambda>c. map (\<lambda>t. (t, user_joined_capsule (userId s) (socket_user s) (capsule_id c)))
                             (filter (\<lambda>t. t \<noteq> sid s) (rooms st (roomName_of (capsule_id c)))))
                   (filter (\<lambda>c. owner c = userId s
                      \<or> userId s \<in> set (map contributor_user (contributors c))) (Capsule_docs d)))"
proof -
  let ?cs = "filter (\<lambda>c. owner c = userId s
                 \<or> userId s \<in> set (map contributor_user (contributors c))) (Capsule_docs d)"
  have j: "join_capsules d s st = (fst (join_each s ?cs st), snd (join_each s ?cs st), Some (length ?cs))"
    using assms by (simp add: join_capsules_def Capsule_find_owner_or_contributor_def Let_def)
  have m: "\<forall>c \<in> set (Capsule_docs d).
           owner c = userId s \<or> userId s \<in> set (map contributor_user (contributors c)) \<longrightarrow>
           userId s \<in> set (members (fst (join_each s ?cs st)) (roomName_of (capsule_id c)))
           \<and> sid s \<in> set (rooms (fst (join_each s ?cs st)) (roomName_of (capsule_id c)))"
  proof (intro ballI impI)
    fix c
    assume "c \<in> set (Capsule_docs d)"
      and "owner c = userId s \<or> userId s \<in> set (map contributor_user (contributors c))"
    then have "c \<in> set ?cs" by simp
    then show "userId s \<in> set (members (fst (join_each s ?cs st)) (roomName_of (capsule_id c)))
           \<and> sid s \<in> set (rooms (fst (join_each s ?cs st)) (roomName_of (capsule_id c)))"
      by (rule join_each_joins)
  qed
  show ?thesis
    unfolding j fst_conv snd_conv
    by (intro conjI m refl join_each_emissions)
qed

lemma scenario_join_capsules:
  "fst (snd (join_capsules store socketA B_joined)) = [(''sB'', user_joined_capsule ''64a000000000000000000001'' userA ''64c000000000000000000101'')]"
proof -
  have "fst (snd (join_capsules store socketA B_joined)) = snd (join_each socketA [C101] B_joined)"
    by (simp add: join_capsules_def store_lookups Let_def socketA_def)
  also have "\<dots> = [(''sB'', user_joined_capsule ''64a000000000000000000001'' userA ''64c000000000000000000101'')]"
    unfolding join_each_emissions
    by (simp add: roomName_of_def C101_def scenario_B_joined socketA_def)
  finally show ?thesis .
qed

theorem join_capsules_joins_and_notifies_witness:
  "\<not> rejects store
   \<and> ''64a000000000000000000001'' \<in> set (members (fst (join_capsules store socketA B_joined)) ''capsule_64c000000000000000000101'')
   \<and> snd (snd (join_capsules store socketA B_joined)) = Some 1
   \<and> fst (snd (join_capsules store socketA B_joined))
       = [(''sB'', user_joined_capsule ''64a000000000000000000001'' userA ''64c000000000000000000101'')]"
proof -
  have a: "\<not> rejects store" by (simp add: store_def)
  note t = join_capsules_joins_and_notifies [OF a, of socketA B_joined]
  have c: "C101 \<in> set (Capsule_docs store)"
    "owner C101 = userId socketA \<or> userId socketA \<in> set (map contributor_user (contributors C101))"
    by (simp_all add: scenario_defs store_def)
  have p1: "userId socketA \<in> set (members (fst (join_capsules store socketA B_joined))
               (roomName_of (capsule_id C101)))"
    using t [THEN conjunct1] c by blast
  have p2: "snd (snd (join_capsules store socketA B_joined)) = Some 1"
    using t [THEN conjunct2, THEN conjunct1] by (simp add: scenario_defs store_def)
  have e: "userId socketA = ''64a000000000000000000001''" "roomName_of (capsule_id C101) = ''capsule_64c000000000000000000101''"
    by (simp_all add: scenario_defs roomName_of_def)
  show ?thesis
    using a p1 p2 scenario_join_capsules unfolding e by blast
qed

text \<open>
  B is in the room of C101 when A sends \<^verbatim>\<open>join_capsules\<close>: B's socket is sent
  \<^verbatim>\<open>user_joined_capsule\<close> for that room.
\<close>

theorem join_capsules_silent_counterexample:
  "snd (step (JoinCapsules store socketA) B_joined)
     = [(''sB'', user_joined_capsule ''64a000000000000000000001'' userA ''64c000000000000000000101'')]"
  by (simp add: Let_def scenario_join_capsules)

text \<open>Lemmas for the sweep and for what removes a member.\<close>

lemma activeUsers_track_join: "activeUsers (track r u (socket_join s r st)) = activeUsers st"
  by (simp add: track_eq socket_join_def)

lemma activeUsers_join_each: "activeUsers (fst (join_each s cs st)) = activeUsers st"
  by (induction cs arbitrary: st) (simp_all add: Let_def activeUsers_track_join)

lemma activeUsers_distinct_step:
  assumes "distinct (map fst (activeUsers st))"
  shows "distinct (map fst (activeUsers (fst (step x st))))"
proof (cases x)
  case (Connect s now)
  show ?thesis
    using assms by (simp add: Connect on_connection_def Map_set_def distinct_update)
next
  case (JoinCapsules d s)
  show ?thesis
    using assms
    by (simp add: JoinCapsules join_capsules_def Let_def activeUsers_join_each split: query.splits)
next
  case (JoinCapsule d s c)
  show ?thesis
    using assms
    by (simp add: JoinCapsule join_capsule_def Let_def activeUsers_track_join
        split: query.splits option.splits)
next
  case (LeaveCapsule s c)
  show ?thesis
    using assms by (simp add: LeaveCapsule leave_capsule_def Let_def untrack_eq socket_leave_def)
next
  case (Disconnect s)
  show ?thesis
    using assms by (simp add: Disconnect on_disconnect_def Let_def Map_delete_def distinct_delete)
next
  case (Sweep now)
  show ?thesis
    using assms by (simp add: Sweep cleanup_def distinct_map_filter)
qed (use assms in \<open>simp_all add: typing_start_def typing_stop_def on_live_reaction_def
    viewing_memory_def\<close>)

lemma activeUsers_distinct_run:
  "distinct (map fst (activeUsers st)) \<Longrightarrow> distinct (map fst (activeUsers (run xs st)))"
  by (induction xs arbitrary: st) (simp_all add: activeUsers_distinct_step)

lemma map_of_filter_None: "map_of al k = None \<Longrightarrow> map_of (filter P al) k = None"
  by (induction al) (auto split: if_splits)

lemma map_of_filter_values:
  "distinct (map fst al) \<Longrightarrow>
   map_of (filter (\<lambda>(k, v). P v) al) k =
     (case map_of al k of None \<Rightarrow> None | Some v \<Rightarrow> if P v then Some v else None)"
proof (induction al)
  case Nil
  show ?case by simp
next
  case (Cons p al)
  obtain k' v' where p: "p = (k', v')" by (cases p)
  have ih: "map_of (filter (\<lambda>(k, v). P v) al) k =
     (case map_of al k of None \<Rightarrow> None | Some v \<Rightarrow> if P v then Some v else None)"
    using Cons by simp
  show ?case
  proof (cases "k' = k")
    case True
    then have "map_of al k = None"
      using Cons.prems p by (simp add: map_of_eq_None_iff)
    then have "map_of (filter (\<lambda>(k, v). P v) al) k = None"
      by (rule map_of_filter_None)
    then show ?thesis using True by (simp add: p)
  next
    case False
    then show ?thesis by (simp add: p ih)
  qed
qed

lemma isUserOnline_Sweep:
  assumes "distinct (map fst (activeUsers st))"
  shows "isUserOnline (fst (step (Sweep now) st)) u
     \<longleftrightarrow> (\<exists>d. map_of (activeUsers st) u = Some d \<and> now - joinedAt d \<le> 3600000)"
proof -
  have "map_of (filter (\<lambda>(k, d). now - joinedAt d \<le> 3600000) (activeUsers st)) u =
      (case map_of (activeUsers st) u of
         None \<Rightarrow> None
       | Some d \<Rightarrow> if now - joinedAt d \<le> 3600000 then Some d else None)"
    by (rule map_of_filter_values [OF assms])
  then show ?thesis
    by (simp add: cleanup_def not_less isUserOnline_def Map_has_def split: option.splits)
qed

lemma members_join_each_mono:
  "v \<in> set (members st r) \<Longrightarrow> v \<in> set (members (fst (join_each s cs st)) r)"
proof (induction cs arbitrary: st)
  case Nil
  then show ?case by simp
next
  case (Cons c cs)
  let ?st1 = "track (roomName_of (capsule_id c)) (userId s)
                (socket_join s (roomName_of (capsule_id c)) st)"
  have "v \<in> set (members ?st1 r)"
    using Cons.prems by (auto simp: set_members_track_join)
  then show ?case
    using Cons.IH [of ?st1] by (simp add: Let_def)
qed

lemma removeAll_keeps_nonempty: "v \<in> set xs \<Longrightarrow> v \<noteq> u \<Longrightarrow> removeAll u xs \<noteq> []"
  by (induction xs) auto

lemma leave_all_keeps:
  "map_of cr r = Some us \<Longrightarrow> v \<in> set us \<Longrightarrow> v \<noteq> userId s \<Longrightarrow>
   \<exists>us'. map_of (fst (leave_all s st cr)) r = Some us' \<and> v \<in> set us'"
proof (induction cr)
  case Nil
  then show ?case by simp
next
  case (Cons p cr)
  obtain k ws where p: "p = (k, ws)" by (cases p)
  show ?case
  proof (cases "k = r")
    case True
    then have ws: "ws = us" using Cons.prems(1) p by simp
    have ne: "removeAll (userId s) us \<noteq> []"
      using Cons.prems(2,3) by (rule removeAll_keeps_nonempty)
    show ?thesis
      using Cons.prems(2,3) ne by (simp add: p True ws Let_def Set_delete_def)
  next
    case False
    then have "map_of cr r = Some us" using Cons.prems(1) p by simp
    then have "\<exists>us'. map_of (fst (leave_all s st cr)) r = Some us' \<and> v \<in> set us'"
      using Cons.prems(2,3) by (rule Cons.IH)
    then show ?thesis using False by (simp add: p Let_def)
  qed
qed

lemma members_Disconnect_keeps:
  assumes "v \<in> set (members st r)" and "v \<noteq> userId s"
  shows "v \<in> set (members (fst (step (Disconnect s) st)) r)"
proof -
  obtain us where us: "map_of (capsuleRooms st) r = Some us" "v \<in> set us"
    using assms(1) by (cases "map_of (capsuleRooms st) r") (auto simp: members_def)
  let ?st1 = "st\<lparr>sockets := Set_delete (sid s) (sockets st),
                  rooms := (\<lambda>r. Set_delete (sid s) (rooms st r)),
                  activeUsers := Map_delete (userId s) (activeUsers st)\<rparr>"
  obtain us' where "map_of (fst (leave_all s ?st1 (capsuleRooms st))) r = Some us'" "v \<in> set us'"
    using leave_all_keeps [OF us assms(2)] by blast
  then show ?thesis
    by (simp add: on_disconnect_def Let_def members_def)
qed

lemma members_untrack_keeps:
  assumes "v \<in> set (members st r)" and "r \<noteq> r' \<or> v \<noteq> u"
  shows "v \<in> set (members (untrack r' u st) r)"
proof (cases "r = r'")
  case True
  then have vu: "v \<in> set (members st r')" "v \<noteq> u" using assms by simp_all
  have ne: "removeAll u (members st r') \<noteq> []"
    using vu by (rule removeAll_keeps_nonempty)
  have "map_of (capsuleRooms st) r' \<noteq> None"
    using vu(1) by (cases "map_of (capsuleRooms st) r'") (auto simp: members_def)
  then show ?thesis
    using vu ne by (simp add: untrack_eq True) (simp add: members_def update_conv')
next
  case False
  then show ?thesis
    using assms(1) by (simp add: untrack_eq) (simp add: members_def update_conv' delete_conv')
qed

lemma members_removed_only:
  assumes "v \<in> set (members st r)" and "v \<notin> set (members (fst (step x st)) r)"
  shows "(\<exists>s c. x = LeaveCapsule s c \<and> userId s = v \<and> roomName_of c = r)
     \<or> (\<exists>s. x = Disconnect s \<and> userId s = v)"
proof (cases x)
  case (Connect s now)
  then show ?thesis using assms by (simp add: on_connection_def members_def)
next
  case (JoinCapsules d s)
  then show ?thesis
    using assms members_join_each_mono [OF assms(1)]
    by (simp add: join_capsules_def Let_def split: query.splits)
next
  case (JoinCapsule d s c)
  then show ?thesis
    using assms
    by (simp add: join_capsule_def Let_def set_members_track_join
        split: query.splits option.splits if_splits)
next
  case (LeaveCapsule s c)
  have m: "members (socket_leave s (roomName_of c) st) r = members st r"
    by (simp add: members_def socket_leave_def)
  show ?thesis
  proof (rule ccontr)
    assume "\<not> ?thesis"
    then have "r \<noteq> roomName_of c \<or> v \<noteq> userId s" using LeaveCapsule by auto
    then have "v \<in> set (members (untrack (roomName_of c) (userId s)
                 (socket_leave s (roomName_of c) st)) r)"
      using assms(1) by (intro members_untrack_keeps) (simp_all add: m)
    then show False using assms(2) by (simp add: LeaveCapsule leave_capsule_def Let_def)
  qed
next
  case (Disconnect s)
  show ?thesis
  proof (rule ccontr)
    assume "\<not> ?thesis"
    then have "v \<noteq> userId s" using Disconnect by auto
    then have "v \<in> set (members (fst (step (Disconnect s) st)) r)"
      using assms(1) by (intro members_Disconnect_keeps)
    then show False using assms(2) Disconnect by simp
  qed
next
  case (Sweep now)
  then show ?thesis using assms by (simp add: cleanup_def members_def)
qed (use assms in \<open>simp_all add: typing_start_def typing_stop_def on_live_reaction_def
    viewing_memory_def\<close>)

text \<open>
  Claim C3, as the code has it. The periodic sweep deletes from \<^verbatim>\<open>activeUsers\<close> the
  entries whose \<^verbatim>\<open>joinedAt\<close> lies more than one hour (3600000 ms) before the sweep, so
  that in any state reached from the empty registry \<^verbatim>\<open>isUserOnline\<close> holds afterwards
  exactly for the users whose entry is not older. It removes no room membership:
  \<^verbatim>\<open>capsuleRooms\<close>, the members of every room and the rooms of the socket library are
  unchanged, and nothing is emitted. The membership of a user in a room is removed only
  by that user's \<^verbatim>\<open>leave_capsule\<close> for the room or by that user's disconnect.
\<close>

theorem sweep_evicts_presence_only:
  "activeUsers (fst (step (Sweep now) st))
     = filter (\<lambda>(u, d). now - joinedAt d \<le> 3600000) (activeUsers st)
   \<and> (isUserOnline (fst (step (Sweep now) (run ops init))) u
        \<longleftrightarrow> (\<exists>d. map_of (activeUsers (run ops init)) u = Some d
                  \<and> now - joinedAt d \<le> 3600000))
   \<and> capsuleRooms (fst (step (Sweep now) st)) = capsuleRooms st
   \<and> members (fst (step (Sweep now) st)) r = members st r
   \<and> rooms (fst (step (Sweep now) st)) = rooms st
   \<and> snd (step (Sweep now) st) = []
   \<and> (v \<in> set (members st r) \<and> v \<notin> set (members (fst (step x st)) r) \<longrightarrow>
        (\<exists>s c. x = LeaveCapsule s c \<and> userId s = v \<and> roomName_of c = r)
        \<or> (\<exists>s. x = Disconnect s \<and> userId s = v))"
proof -
  have d: "distinct (map fst (activeUsers (run ops init)))"
    by (rule activeUsers_distinct_run) (simp add: init_def)
  have a: "activeUsers (fst (step (Sweep now) st))
     = filter (\<lambda>(u, d). now - joinedAt d \<le> 3600000) (activeUsers st)"
    by (simp add: cleanup_def not_less)
  have m: "members (fst (step (Sweep now) st)) r = members st r"
    by (simp add: cleanup_def members_def)
  have o: "v \<in> set (members st r) \<and> v \<notin> set (members (fst (step x st)) r) \<longrightarrow>
        (\<exists>s c. x = LeaveCapsule s c \<and> userId s = v \<and> roomName_of c = r)
        \<or> (\<exists>s. x = Disconnect s \<and> userId s = v)"
    using members_removed_only [of v st r x] by blast
  show ?thesis
    by (intro conjI a isUserOnline_Sweep [OF d] m o) (simp_all add: cleanup_def)
qed

lemma scenario_presence:
  "activeUsers both_joined =
     [(''64a000000000000000000001'', \<lparr>socketId = ''sA'', user = userA, joinedAt = 0\<rparr>),
      (''64a000000000000000000002'', \<lparr>socketId = ''sB'', user = userB, joinedAt = 1\<rparr>)]"
  by (simp add: both_joined_def handler_defs scenario_defs)

lemma scenario_members:
  "members both_joined ''capsule_64c000000000000000000101''
     = [''64a000000000000000000001'', ''64a000000000000000000002'']"
  by (simp add: members_def scenario_both_joined)

theorem sweep_evicts_presence_only_witness:
  "\<not> isUserOnline (fst (step (Sweep 3600001) both_joined)) ''64a000000000000000000001''
   \<and> isUserOnline (fst (step (Sweep 3600001) both_joined)) ''64a000000000000000000002''
   \<and> members (fst (step (Sweep 3600001) both_joined)) ''capsule_64c000000000000000000101''
       = [''64a000000000000000000001'', ''64a000000000000000000002'']
   \<and> ''64a000000000000000000001'' \<in> set (members both_joined ''capsule_64c000000000000000000101'')
   \<and> ''64a000000000000000000001'' \<notin> set (members
         (fst (step (LeaveCapsule socketA ''64c000000000000000000101'') both_joined))
         ''capsule_64c000000000000000000101'')
   \<and> userId socketA = ''64a000000000000000000001''"
proof -
  note t1 = sweep_evicts_presence_only [of 3600001 both_joined
      "[Connect socketA 0, Connect socketB 1, JoinCapsule store socketA ''64c000000000000000000101'',
        JoinCapsule store socketB ''64c000000000000000000101'']" "''64a000000000000000000001''"
      "''capsule_64c000000000000000000101''" "''64a000000000000000000001''"
      "LeaveCapsule socketA ''64c000000000000000000101''", folded both_joined_def]
  note t2 = sweep_evicts_presence_only [of 3600001 both_joined
      "[Connect socketA 0, Connect socketB 1, JoinCapsule store socketA ''64c000000000000000000101'',
        JoinCapsule store socketB ''64c000000000000000000101'']" "''64a000000000000000000002''"
      "''capsule_64c000000000000000000101''" "''64a000000000000000000001''"
      "LeaveCapsule socketA ''64c000000000000000000101''", folded both_joined_def]
  have p1: "\<not> isUserOnline (fst (step (Sweep 3600001) both_joined)) ''64a000000000000000000001''"
    unfolding t1 [THEN conjunct2, THEN conjunct1] by (simp add: scenario_presence)
  have p2: "isUserOnline (fst (step (Sweep 3600001) both_joined)) ''64a000000000000000000002''"
    unfolding t2 [THEN conjunct2, THEN conjunct1] by (simp add: scenario_presence)
  have p3: "members (fst (step (Sweep 3600001) both_joined)) ''capsule_64c000000000000000000101''
       = [''64a000000000000000000001'', ''64a000000000000000000002'']"
    unfolding t1 [THEN conjunct2, THEN conjunct2, THEN conjunct2, THEN conjunct1]
    by (rule scenario_members)
  have p4: "''64a000000000000000000001'' \<in> set (members both_joined ''capsule_64c000000000000000000101'')"
    by (simp add: scenario_members)
  have p5: "''64a000000000000000000001'' \<notin> set (members
         (fst (step (LeaveCapsule socketA ''64c000000000000000000101'') both_joined))
         ''capsule_64c000000000000000000101'')"
    using members_leave_capsule [of socketA "''64c000000000000000000101''" both_joined]
    by (simp add: roomName_of_def socketA_def)
  have p6: "userId socketA = ''64a000000000000000000001''"
    by (simp add: socketA_def)
  show ?thesis
    by (intro conjI p1 p2 p3 p4 p5 p6)
qed

text \<open>
  A is connected at time 0 and in the room of C101. The sweep one hour and one
  millisecond later evicts A from \<^verbatim>\<open>activeUsers\<close>; A is still tracked in the room and
  A's socket is still in it.
\<close>

theorem sweep_removes_membership_counterexample:
  "\<not> isUserOnline (fst (step (Sweep 3600001) both_joined)) ''64a000000000000000000001''
   \<and> ''64a000000000000000000001'' \<in> set (members (fst (step (Sweep 3600001) both_joined)) (roomName_of ''64c000000000000000000101''))
   \<and> ''sA'' \<in> set (rooms (fst (step (Sweep 3600001) both_joined)) (roomName_of ''64c000000000000000000101''))"
  by (simp add: cleanup_def scenario_presence scenario_both_joined isUserOnline_def Map_has_def
      members_def roomName_of_def)

text \<open>Lemmas for the pin route.\<close>

lemma pin_memory_owner:
  assumes "MemoryItem_findById d i = Resolved (Some m)"
    and "Capsule_findById_ObjectId d (memory_capsule m) = Resolved (Some cap)"
    and "owner cap = user_id req_user"
  shows "pin_memory d req_user i st =
           (if save_rejects d then (500, d, [])
            else (200,
                  d\<lparr>MemoryItem_docs :=
                      map (\<lambda>x. if memory_id x = memory_id m then m\<lparr>isPinned := \<not> isPinned m\<rparr> else x)
                        (MemoryItem_docs d)\<rparr>,
                  map (\<lambda>t. (t, memory_pinned (memory_id m) (\<not> isPinned m) req_user))
                    (rooms st (roomName_of (memory_capsule m)))))"
  using assms by (simp add: pin_memory_def Let_def io_to_emit_def MemoryItem_save_def)

text \<open>
  Claim C2, as the code has it. When the sockets of A, the owner, and of B are both in
  the room of the capsule and A pins a memory of the capsule through the route, then,
  the save having succeeded, every socket of the room receives \<^verbatim>\<open>memory_pinned\<close> exactly
  once, with the id of the memory and the toggled flag (true when the memory was not
  pinned): B's socket receives exactly one, and so does A's, since the route emits with
  \<^verbatim>\<open>io.to(room)\<close>, which leaves nobody out. When the save rejects, the route answers
  500, the store is unchanged and nothing is emitted.
\<close>

theorem pin_memory_reaches_whole_room:
  assumes "MemoryItem_findById d i = Resolved (Some m)"
    and "Capsule_findById_ObjectId d (memory_capsule m) = Resolved (Some cap)"
    and "owner cap = user_id req_user"
    and "a \<in> set (rooms (run ops init) (roomName_of (memory_capsule m)))"
    and "b \<in> set (rooms (run ops init) (roomName_of (memory_capsule m)))"
  shows "(\<not> save_rejects d \<longrightarrow>
           received b (snd (snd (pin_memory d req_user i (run ops init))))
             = [memory_pinned (memory_id m) (\<not> isPinned m) req_user]
           \<and> received a (snd (snd (pin_memory d req_user i (run ops init))))
             = [memory_pinned (memory_id m) (\<not> isPinned m) req_user]
           \<and> fst (pin_memory d req_user i (run ops init)) = 200)
     \<and> (save_rejects d \<longrightarrow> pin_memory d req_user i (run ops init) = (500, d, []))"
proof -
  have "distinct (rooms (run ops init) (roomName_of (memory_capsule m)))"
    by (intro rooms_distinct rooms_ok_run rooms_ok_init)
  then show ?thesis
    using assms(4,5) by (simp add: pin_memory_owner [OF assms(1,2,3)] received_map)
qed

lemma scenario_pin:
  "owner C101 = user_id userA"
  "memory_capsule M1 = ''64c000000000000000000101''"
  "memory_id M1 = ''64d000000000000000000001''"
  "isPinned M1 = False"
  "\<not> save_rejects store"
  "save_rejects store_save_fails"
  by (simp_all add: scenario_defs store_def store_save_fails_def)

theorem pin_memory_reaches_whole_room_witness:
  "MemoryItem_findById store ''64D000000000000000000001'' = Resolved (Some M1)
   \<and> Capsule_findById_ObjectId store (memory_capsule M1) = Resolved (Some C101)
   \<and> owner C101 = user_id userA
   \<and> ''sA'' \<in> set (rooms both_joined ''capsule_64c000000000000000000101'')
   \<and> ''sB'' \<in> set (rooms both_joined ''capsule_64c000000000000000000101'')
   \<and> \<not> save_rejects store
   \<and> received ''sB'' (snd (snd (pin_memory store userA ''64D000000000000000000001'' both_joined)))
        = [memory_pinned ''64d000000000000000000001'' True userA]
   \<and> received ''sA'' (snd (snd (pin_memory store userA ''64D000000000000000000001'' both_joined)))
        = [memory_pinned ''64d000000000000000000001'' True userA]
   \<and> save_rejects store_save_fails
   \<and> pin_memory store_save_fails userA ''64d000000000000000000001'' both_joined
        = (500, store_save_fails, [])"
proof -
  have r: "roomName_of (memory_capsule M1) = ''capsule_64c000000000000000000101''"
    by (simp add: roomName_of_def scenario_pin)
  have c: "Capsule_findById_ObjectId store (memory_capsule M1) = Resolved (Some C101)"
    "Capsule_findById_ObjectId store_save_fails (memory_capsule M1) = Resolved (Some C101)"
    unfolding scenario_pin(2) by (rule store_lookups)+
  have a: "''sA'' \<in> set (rooms (run [Connect socketA 0, Connect socketB 1,
      JoinCapsule store socketA ''64c000000000000000000101'',
      JoinCapsule store socketB ''64c000000000000000000101''] init)
        (roomName_of (memory_capsule M1)))"
    and b: "''sB'' \<in> set (rooms (run [Connect socketA 0, Connect socketB 1,
      JoinCapsule store socketA ''64c000000000000000000101'',
      JoinCapsule store socketB ''64c000000000000000000101''] init)
        (roomName_of (memory_capsule M1)))"
    unfolding both_joined_def [symmetric] r by (simp_all add: scenario_both_joined)
  note t1 = pin_memory_reaches_whole_room [OF store_lookups(5) c(1) scenario_pin(1) a b,
      folded both_joined_def, unfolded scenario_pin(3,4), THEN conjunct1, THEN mp,
      OF scenario_pin(5)]
  note t2 = pin_memory_reaches_whole_room [OF store_lookups(6) c(2) scenario_pin(1) a b,
      folded both_joined_def, THEN conjunct2, THEN mp, OF scenario_pin(6)]
  have t1': "received ''sB'' (snd (snd (pin_memory store userA ''64D000000000000000000001'' both_joined)))
        = [memory_pinned ''64d000000000000000000001'' True userA]"
    "received ''sA'' (snd (snd (pin_memory store userA ''64D000000000000000000001'' both_joined)))
        = [memory_pinned ''64d000000000000000000001'' True userA]"
    using t1 by simp_all
  show ?thesis
    by (intro conjI store_lookups(5) c(1) scenario_pin(1) a [folded both_joined_def, unfolded r]
        b [folded both_joined_def, unfolded r] scenario_pin(5) t1' scenario_pin(6) t2)
qed

text \<open>
  A and B are in the room of C101 and A pins M1: A's own socket receives
  \<^verbatim>\<open>memory_pinned\<close> through the room broadcast.
\<close>

theorem pin_actor_excluded_counterexample:
  "received ''sA'' (snd (snd (pin_memory store userA ''64d000000000000000000001'' both_joined)))
     = [memory_pinned ''64d000000000000000000001'' True userA]"
proof -
  have c: "Capsule_findById_ObjectId store (memory_capsule M1) = Resolved (Some C101)"
    unfolding scenario_pin(2) by (rule store_lookups)
  show ?thesis
    unfolding pin_memory_owner [OF store_lookups(4) c scenario_pin(1)]
    by (simp add: scenario_pin roomName_of_def scenario_both_joined received_def)
qed

end
